theory Spec2Isabelle
  imports Complex_Main
begin

section \<open>C arithmetic used by the PWM engine\<close>

subsection \<open>The type \<open>int\<close>\<close>

text \<open>
  The fields of \<open>struct _PWM\<close> and the locals of \<open>pwm_set_duty\<close> are C \<open>int\<close>s, 32 bits
  wide on the target. They are modelled as mathematical integers together with the range
  predicate \<open>c_int\<close>. Signed overflow is undefined behaviour in C, so the subtraction of
  \<open>pwm_set_duty\<close> is a checked operation that yields \<open>None\<close> outside the range.
\<close>

definition INT_MAX :: int where
  "INT_MAX = 2147483647"

definition INT_MIN :: int where
  "INT_MIN = - 2147483648"

definition c_int :: "int \<Rightarrow> bool" where
  "c_int x = (INT_MIN \<le> x \<and> x \<le> INT_MAX)"

definition int_sub :: "int \<Rightarrow> int \<Rightarrow> int option" where
  "int_sub a b = (if c_int (a - b) then Some (a - b) else None)"

subsection \<open>The type \<open>double\<close>\<close>

text \<open>
  An IEEE 754 binary64 value is a NaN, an infinity with its sign, or a finite value
  \<open>Finite s m e\<close> that denotes \<open>(-1)\<^sup>s * m * 2\<^sup>e\<close>. The finite doubles are the values
  with a significand \<open>m < 2\<^sup>5\<^sup>3\<close>, an exponent \<open>e \<ge> - 1074\<close> and a magnitude below
  \<open>2\<^sup>1\<^sup>0\<^sup>2\<^sup>4\<close>; a value may be written with more than one pair \<open>(m, e)\<close>. Both zeros are
  finite values with \<open>m = 0\<close>.
\<close>

datatype double = Finite bool nat int | Infinity bool | NaN

text \<open>The number of binary digits of a natural number.\<close>

fun bit_len :: "nat \<Rightarrow> nat" where
  "bit_len n = (if n = 0 then 0 else Suc (bit_len (n div 2)))"

declare bit_len.simps [simp del]

fun is_double :: "double \<Rightarrow> bool" where
  "is_double (Finite s m e) = (m < 2 ^ 53 \<and> - 1074 \<le> e \<and> int (bit_len m) + e \<le> 1024)"
| "is_double (Infinity s) = True"
| "is_double NaN = True"

fun is_finite :: "double \<Rightarrow> bool" where
  "is_finite (Finite s m e) = True"
| "is_finite (Infinity s) = False"
| "is_finite NaN = False"

text \<open>The real number a finite double denotes (0 for the values that denote none).\<close>

fun dval :: "double \<Rightarrow> real" where
  "dval (Finite s m e) = (if s then - 1 else 1) * real m * 2 powi e"
| "dval (Infinity s) = 0"
| "dval NaN = 0"

text \<open>
  Rounding of the exact value \<open>(-1)\<^sup>s * m * 2\<^sup>e\<close> to binary64 in the default mode, round
  to nearest with ties to even: the lowest \<open>k\<close> bits of \<open>m\<close> are dropped, where \<open>k\<close> is the
  least shift that leaves at most 53 bits and an exponent of at least \<open>- 1074\<close>; a result
  of magnitude \<open>2\<^sup>1\<^sup>0\<^sup>2\<^sup>4\<close> or more overflows to an infinity, and a significand rounded up
  to \<open>2\<^sup>5\<^sup>3\<close> is written as \<open>2\<^sup>5\<^sup>2\<close> with the next exponent.
\<close>

definition round_nearest_even :: "bool \<Rightarrow> nat \<Rightarrow> int \<Rightarrow> double" where
  "round_nearest_even s m e =
     (let k = nat (max (int (bit_len m) - 53) (- 1074 - e));
          q = m div 2 ^ k;
          r = m mod 2 ^ k;
          q' = (if 2 ^ k < 2 * r \<or> (2 * r = 2 ^ k \<and> odd q) then q + 1 else q);
          e' = e + int k
      in if 1024 < int (bit_len q') + e' then Infinity s
         else if q' = 2 ^ 53 then Finite s (2 ^ 52) (e' + 1)
         else Finite s q' e')"

text \<open>The product of two doubles, as the C operator \<open>*\<close> computes it.\<close>

fun double_mul :: "double \<Rightarrow> double \<Rightarrow> double" where
  "double_mul NaN y = NaN"
| "double_mul (Infinity s) NaN = NaN"
| "double_mul (Finite s m e) NaN = NaN"
| "double_mul (Infinity s) (Infinity t) = Infinity (s \<noteq> t)"
| "double_mul (Infinity s) (Finite t n f) = (if n = 0 then NaN else Infinity (s \<noteq> t))"
| "double_mul (Finite s m e) (Infinity t) = (if m = 0 then NaN else Infinity (s \<noteq> t))"
| "double_mul (Finite s m e) (Finite t n f) = round_nearest_even (s \<noteq> t) (m * n) (e + f)"

text \<open>
  The usual arithmetic conversion of an \<open>int\<close> operand to \<open>double\<close>; every 32-bit integer
  is a double, so the conversion is exact.
\<close>

definition int_to_double :: "int \<Rightarrow> double" where
  "int_to_double c = Finite (c < 0) (nat \<bar>c\<bar>) 0"

text \<open>
  The cast \<open>(int) x\<close>: the fractional part is discarded. When the integral part is not
  representable in \<open>int\<close>, and for infinities and NaNs, the behaviour is undefined
  (C11 6.3.1.4); the model returns \<open>None\<close> there.
\<close>

fun double_to_int :: "double \<Rightarrow> int option" where
  "double_to_int (Finite s m e) =
     (let t = (if 0 \<le> e then int m * 2 ^ nat e else int m div 2 ^ nat (- e));
          v = (if s then - t else t)
      in if c_int v then Some v else None)"
| "double_to_int (Infinity s) = None"
| "double_to_int NaN = None"

text \<open>The C comparison \<open>x < y\<close> on doubles: false as soon as an operand is a NaN.\<close>

fun double_less :: "double \<Rightarrow> double \<Rightarrow> bool" where
  "double_less NaN y = False"
| "double_less (Infinity s) NaN = False"
| "double_less (Finite s m e) NaN = False"
| "double_less (Infinity s) (Infinity t) = (s \<and> \<not> t)"
| "double_less (Infinity s) (Finite t n f) = s"
| "double_less (Finite s m e) (Infinity t) = (\<not> t)"
| "double_less (Finite s m e) (Finite t n f) = (dval (Finite s m e) < dval (Finite t n f))"

text \<open>The literals \<open>0.0\<close>, \<open>1.0\<close> and \<open>0.5\<close>.\<close>

definition d_zero :: double where
  "d_zero = Finite False 0 (- 1074)"

definition d_one :: double where
  "d_one = Finite False (2 ^ 52) (- 52)"

definition d_half :: double where
  "d_half = Finite False (2 ^ 52) (- 53)"

text \<open>Rounding toward zero of a real number, as the specification names it.\<close>

definition round_toward_zero :: "real \<Rightarrow> int" where
  "round_toward_zero x = (if 0 \<le> x then \<lfloor>x\<rfloor> else \<lceil>x\<rceil>)"


section \<open>The PWM instance and its environment\<close>

text \<open>
  \<open>struct _PWM\<close>, field by field. Instances live in a heap indexed by addresses; the null
  pointer is the address 0.
\<close>

type_synonym addr = nat

definition NULL :: addr where
  "NULL = 0"

record PWM =
  pin :: int
  pthread :: nat
  stop :: bool
  f_value :: int
  cycle_usec :: int
  on_usec :: int
  off_usec :: int

text \<open>
  The library and system calls the program issues, in the order it issues them. A stream
  is named by the file it was opened on, a thread by the position of the call that
  created it.
\<close>

datatype call =
    Malloc addr
  | Free addr
  | Free_string "string option"
  | Fopen string
  | Fprintf string string
  | Fclose string
  | Open string
  | Write int string
  | Close int
  | Usleep int
  | Pthread_create addr
  | Pthread_detach nat
  | Printf string
  | Fflush
  | Fscanf

text \<open>
  The state of the process and of the kernel behind it. The last three fields are how the
  kernel answers the calls whose result the program inspects: \<open>fopen_fails cs f\<close> is
  \<open>Some e\<close> when \<open>fopen (f, "w")\<close>, issued after the calls \<open>cs\<close>, returns no stream and sets
  \<open>errno\<close> to \<open>e\<close>; \<open>open_returns cs f\<close> is \<open>Inr fd\<close> when \<open>open (f, O_WRONLY)\<close> returns the
  descriptor \<open>fd\<close> and \<open>Inl e\<close> when it returns \<open>-1\<close> with \<open>errno = e\<close>; \<open>strerror\<close> is the
  table of error texts. Results the program never looks at (those of \<open>malloc\<close>,
  \<open>fprintf\<close>, \<open>write\<close>, \<open>close\<close>, \<open>pthread_create\<close>, \<open>usleep\<close>) are not modelled; the call is
  logged.
\<close>

record world =
  heap :: "addr \<Rightarrow> PWM option"
  brk :: addr
  calls :: "call list"
  errno :: int
  fopen_fails :: "call list \<Rightarrow> string \<Rightarrow> int option"
  open_returns :: "call list \<Rightarrow> string \<Rightarrow> int + nat"
  strerror :: "int \<Rightarrow> string"

text \<open>
  What stops a call short of its return: a failed \<open>assert\<close>, an access through a pointer
  to no live instance, and the two undefined operations of \<open>pwm_set_duty\<close>.
\<close>

datatype fault = Assertion_Failed | Invalid_Pointer | Conversion_Undefined | Signed_Overflow

subsection \<open>Formatting\<close>

fun digits :: "nat \<Rightarrow> string" where
  "digits n =
     (if n < 10 then [''0123456789'' ! n]
      else digits (n div 10) @ [''0123456789'' ! (n mod 10)])"

declare digits.simps [simp del]

text \<open>The conversion \<open>%d\<close>.\<close>

definition decimal :: "int \<Rightarrow> string" where
  "decimal i = (if i < 0 then CHR ''-'' # digits (nat (- i)) else digits (nat i))"

text \<open>\<open>snprintf\<close> into a buffer of \<open>n\<close> bytes keeps at most \<open>n - 1\<close> characters.\<close>

definition snprintf :: "nat \<Rightarrow> string \<Rightarrow> string" where
  "snprintf n str = take (n - 1) str"

section \<open>pwm.c\<close>

subsection \<open>\<open>pwm_create\<close>\<close>

definition pwm_create :: "int \<Rightarrow> world \<Rightarrow> addr \<times> world" where
  "pwm_create p w =
     (let self = Suc (brk w);
          zeroed = \<lparr>pin = 0, pthread = 0, stop = False, f_value = 0,
                    cycle_usec = 0, on_usec = 0, off_usec = 0\<rparr>
      in (self,
          w\<lparr>heap := (heap w)(self \<mapsto> zeroed\<lparr>pin := p, f_value := - 1\<rparr>),
            brk := self,
            calls := calls w @ [Malloc self]\<rparr>))"

subsection \<open>\<open>pwm_set_duty\<close>\<close>

definition pwm_set_duty :: "addr \<Rightarrow> double \<Rightarrow> world \<Rightarrow> fault + world" where
  "pwm_set_duty self duty w =
     (if self = NULL then Inl Assertion_Failed
      else case heap w self of
        None \<Rightarrow> Inl Invalid_Pointer
      | Some s \<Rightarrow>
          (case double_to_int (double_mul (int_to_double (cycle_usec s)) duty) of
             None \<Rightarrow> Inl Conversion_Undefined
           | Some on \<Rightarrow>
               (case int_sub (cycle_usec s) on of
                  None \<Rightarrow> Inl Signed_Overflow
                | Some off \<Rightarrow>
                    Inr (w\<lparr>heap := (heap w)(self \<mapsto> s\<lparr>on_usec := on, off_usec := off\<rparr>)\<rparr>))))"

subsection \<open>\<open>pwm_write_to_file\<close>\<close>

definition pwm_write_to_file :: "string \<Rightarrow> string \<Rightarrow> world \<Rightarrow> int \<times> world" where
  "pwm_write_to_file filename txt w =
     (case fopen_fails w (calls w) filename of
        Some e \<Rightarrow> (- 1, w\<lparr>calls := calls w @ [Fopen filename], errno := e\<rparr>)
      | None \<Rightarrow>
          (0, w\<lparr>calls := calls w @ [Fopen filename, Fprintf filename txt, Fclose filename]\<rparr>))"

subsection \<open>\<open>pwm_setup_pin\<close> and \<open>pwm_unsetup_pin\<close>\<close>

text \<open>The call \<open>open (s, O_WRONLY)\<close>.\<close>

definition open_wronly :: "string \<Rightarrow> world \<Rightarrow> int \<times> world" where
  "open_wronly path w =
     (case open_returns w (calls w) path of
        Inl e \<Rightarrow> (- 1, w\<lparr>calls := calls w @ [Open path], errno := e\<rparr>)
      | Inr fd \<Rightarrow> (int fd, w\<lparr>calls := calls w @ [Open path]\<rparr>))"

definition pwm_setup_pin :: "addr \<Rightarrow> world \<Rightarrow> fault + int \<times> world" where
  "pwm_setup_pin self w =
     (if self = NULL then Inl Assertion_Failed
      else case heap w self of
        None \<Rightarrow> Inl Invalid_Pointer
      | Some p \<Rightarrow>
          (let s = snprintf 50 (decimal (pin p));
               (ret, w1) = pwm_write_to_file ''/sys/class/gpio/export'' s w
           in if ret = 0 then
                (let s = snprintf 50 (''/sys/class/gpio/gpio'' @ decimal (pin p) @ ''/direction'');
                     (r, w2) = pwm_write_to_file s ''out'' w1;
                     s = snprintf 50 (''/sys/class/gpio/gpio'' @ decimal (pin p) @ ''/value'');
                     (fd, w3) = open_wronly s w2;
                     w4 = w3\<lparr>heap := (heap w3)(self \<mapsto> p\<lparr>f_value := fd\<rparr>)\<rparr>
                 in Inr (if 0 \<le> fd then 0 else ret, w4))
              else Inr (ret, w1)))"

definition pwm_unsetup_pin :: "addr \<Rightarrow> world \<Rightarrow> fault + int \<times> world" where
  "pwm_unsetup_pin self w =
     (if self = NULL then Inl Assertion_Failed
      else case heap w self of
        None \<Rightarrow> Inl Invalid_Pointer
      | Some p \<Rightarrow>
          (let s = snprintf 50 (decimal (pin p));
               (ret, w1) = pwm_write_to_file ''/sys/class/gpio/unexport'' s w;
               w2 = (if 0 \<le> f_value p then w1\<lparr>calls := calls w1 @ [Close (f_value p)]\<rparr> else w1);
               w3 = w2\<lparr>heap := (heap w2)(self \<mapsto> p\<lparr>f_value := - 1\<rparr>)\<rparr>
           in Inr (ret, w3)))"

subsection \<open>\<open>pwm_start\<close>\<close>

text \<open>
  The parameter \<open>error\<close> tells whether the caller passed a non-null \<open>char **\<close>. The result
  is the returned \<open>BOOL\<close> paired with the string stored through \<open>error\<close>, if any.
\<close>

definition pwm_start ::
  "addr \<Rightarrow> int \<Rightarrow> bool \<Rightarrow> world \<Rightarrow> fault + (bool \<times> string option) \<times> world" where
  "pwm_start self cycle error w =
     (if self = NULL then Inl Assertion_Failed
      else case pwm_setup_pin self w of
        Inl f \<Rightarrow> Inl f
      | Inr (r, w1) \<Rightarrow>
          if r = 0 then
            (case heap w1 self of
               None \<Rightarrow> Inl Invalid_Pointer
             | Some p \<Rightarrow>
                 (let p1 = p\<lparr>stop := False, cycle_usec := cycle, on_usec := 0, off_usec := cycle\<rparr>;
                      pt = length (calls w1);
                      cs = calls w1 @ [Pthread_create self, Pthread_detach pt];
                      p2 = p1\<lparr>pthread := pt\<rparr>
                  in Inr ((True, None), w1\<lparr>heap := (heap w1)(self \<mapsto> p2), calls := cs\<rparr>)))
          else
            Inr ((False,
                  if error then Some (''Can't set up pin: '' @ strerror w1 (errno w1)) else None),
                 w1))"

subsection \<open>\<open>pwm_stop\<close> and \<open>pwm_destroy\<close>\<close>

definition pwm_stop :: "addr \<Rightarrow> world \<Rightarrow> fault + world" where
  "pwm_stop self w =
     (if self = NULL then Inl Assertion_Failed
      else case heap w self of
        None \<Rightarrow> Inl Invalid_Pointer
      | Some p \<Rightarrow>
          (case pwm_unsetup_pin self (w\<lparr>heap := (heap w)(self \<mapsto> p\<lparr>stop := True\<rparr>)\<rparr>) of
             Inl f \<Rightarrow> Inl f
           | Inr (r, w1) \<Rightarrow> Inr w1))"

definition pwm_destroy :: "addr \<Rightarrow> world \<Rightarrow> fault + world" where
  "pwm_destroy self w =
     (if self \<noteq> NULL then
        (case pwm_stop self w of
           Inl f \<Rightarrow> Inl f
         | Inr w1 \<Rightarrow> Inr (w1\<lparr>heap := (heap w1)(self := None), calls := calls w1 @ [Free self]\<rparr>))
      else Inr w)"


subsection \<open>\<open>pwm_set_pin\<close> and \<open>pwm_loop\<close>\<close>

text \<open>
  \<open>pwm_loop\<close> runs in a thread of its own, next to the caller of \<open>pwm_set_duty\<close> and
  \<open>pwm_stop\<close>, and only reads the instance. It is modelled by what it reads and what it
  issues: \<open>mem i\<close> is the content of \<open>*self\<close> at the \<open>i\<close>-th instant, and the loop passes one
  instant at each of its eight program points per iteration, reading \<open>mem\<close> there; whatever
  the other threads do to the instance between two points is the difference between two
  values of \<open>mem\<close>. The result is the list of calls the loop has issued when it returns,
  each with the instant of its issue, and \<open>None\<close> when the loop never returns. The instance
  is taken to stay allocated while the loop runs.

  \<open>usleep\<close> takes a \<open>useconds_t\<close>, an unsigned type of 32 bits: the \<open>int\<close> the loop passes is
  converted, so that a negative interval \<open>n\<close> arrives as \<open>2\<^sup>3\<^sup>2 + n\<close>. The log holds the value
  that arrives.

  \<open>pwm_set_pin\<close> is given the content of \<open>*self\<close> at the instant it reads \<open>f_value\<close>; it
  issues the \<open>write\<close> and returns 0.
\<close>

definition useconds_t :: "int \<Rightarrow> int" where
  "useconds_t x = x mod 2 ^ 32"

definition pwm_set_pin :: "PWM \<Rightarrow> int \<Rightarrow> call list \<times> int" where
  "pwm_set_pin self v = ([Write (f_value self) (if v \<noteq> 0 then ''1'' else ''0'')], 0)"

partial_function (option) pwm_loop ::
  "(nat \<Rightarrow> PWM) \<Rightarrow> nat \<Rightarrow> (nat \<times> call) list \<Rightarrow> (nat \<times> call) list option" where
  "pwm_loop mem t acc =
     (if \<not> stop (mem t) then
        (let hi = (if on_usec (mem (t + 1)) \<noteq> 0
                   then map (Pair (t + 2)) (fst (pwm_set_pin (mem (t + 2)) 1)) else []);
             hi_sleep = [(t + 3, Usleep (useconds_t (on_usec (mem (t + 3)))))];
             lo = (if \<not> stop (mem (t + 4)) then
                     (if off_usec (mem (t + 5)) \<noteq> 0
                      then map (Pair (t + 6)) (fst (pwm_set_pin (mem (t + 6)) 0)) else [])
                     @ [(t + 7, Usleep (useconds_t (off_usec (mem (t + 7)))))]
                   else [])
         in pwm_loop mem (t + 8) (acc @ hi @ hi_sleep @ lo))
      else Some acc)"

text \<open>
  The steps of one iteration that begins at instant \<open>t\<close>, in the words of the
  specification: HIGH is written if and only if the on-interval is nonzero, the loop
  sleeps for the on-interval, and, unless the stop signal is set by then, LOW is written
  if and only if the off-interval is nonzero and the loop sleeps for the off-interval.
  Here \<open>Usleep n\<close> stands for a sleep of \<open>n\<close> microseconds.
\<close>

definition iteration_steps :: "(nat \<Rightarrow> PWM) \<Rightarrow> nat \<Rightarrow> (nat \<times> call) list" where
  "iteration_steps mem t =
     (if on_usec (mem (t + 1)) \<noteq> 0 then [(t + 2, Write (f_value (mem (t + 2))) ''1'')] else [])
     @ [(t + 3, Usleep (on_usec (mem (t + 3))))]
     @ (if stop (mem (t + 4)) then []
        else (if off_usec (mem (t + 5)) \<noteq> 0
              then [(t + 6, Write (f_value (mem (t + 6))) ''0'')] else [])
             @ [(t + 7, Usleep (off_usec (mem (t + 7))))])"

text \<open>
  A step as the library receives it, and the steps of one iteration as \<open>pwm_loop\<close> issues
  them: the argument of \<open>usleep\<close> is converted.
\<close>

fun as_passed :: "call \<Rightarrow> call" where
  "as_passed (Usleep n) = Usleep (useconds_t n)"
| "as_passed c = c"

definition issued_steps :: "(nat \<Rightarrow> PWM) \<Rightarrow> nat \<Rightarrow> (nat \<times> call) list" where
  "issued_steps mem t = map (apsnd as_passed) (iteration_steps mem t)"

text \<open>The pin writes of a log that were issued at instant \<open>r\<close> or later.\<close>

fun is_write :: "call \<Rightarrow> bool" where
  "is_write (Write fd b) = True"
| "is_write c = False"

definition writes_from :: "nat \<Rightarrow> (nat \<times> call) list \<Rightarrow> (nat \<times> call) list" where
  "writes_from r tr = filter (\<lambda>(i, c). r \<le> i \<and> is_write c) tr"

section \<open>main.c\<close>

text \<open>
  The console is the sequence \<open>inp\<close>: the \<open>i\<close>-th call of \<open>fscanf (stdin, "%lf", &val)\<close>
  stores \<open>v\<close> when \<open>inp i = Some v\<close> and leaves \<open>val\<close> as it is when \<open>inp i = None\<close> (end of
  input, or no number to read). The loop of \<open>main\<close> returns \<open>None\<close> when it runs forever.
\<close>

partial_function (option) main_loop ::
  "addr \<Rightarrow> (nat \<Rightarrow> double option) \<Rightarrow> nat \<Rightarrow> double \<Rightarrow> world \<Rightarrow> (fault + world) option" where
  "main_loop pwm inp i val w =
     (if double_less d_zero val then
        (let w1 = w\<lparr>calls := calls w @
                      [Printf ''Set on fraction (0.0-1.0) or a negative number to stop: '',
                       Fflush, Fscanf]\<rparr>;
             val' = (case inp i of Some v \<Rightarrow> v | None \<Rightarrow> val)
         in if double_less d_zero val' then
              (case pwm_set_duty pwm val' w1 of
                 Inl f \<Rightarrow> Some (Inl f)
               | Inr w2 \<Rightarrow>
                   main_loop pwm inp (i + 1) val'
                     (w2\<lparr>calls := calls w2 @ [Printf (''Setting %lf'' @ [CHR 0x0A])]\<rparr>))
            else main_loop pwm inp (i + 1) val' w1)
      else Some (Inr w))"

definition PIN :: int where
  "PIN = 17"

definition main :: "(nat \<Rightarrow> double option) \<Rightarrow> world \<Rightarrow> (fault + world) option" where
  "main inp w =
     (let (pwm, w1) = pwm_create PIN w
      in case pwm_start pwm 20000 True w1 of
           Inl f \<Rightarrow> Some (Inl f)
         | Inr ((ok, error), w2) \<Rightarrow>
             if ok then
               (case pwm_set_duty pwm d_zero w2 of
                  Inl f \<Rightarrow> Some (Inl f)
                | Inr w3 \<Rightarrow>
                    (case main_loop pwm inp 0 d_one w3 of
                       None \<Rightarrow> None
                     | Some (Inl f) \<Rightarrow> Some (Inl f)
                     | Some (Inr w4) \<Rightarrow>
                         (case pwm_stop pwm w4 of
                            Inl f \<Rightarrow> Some (Inl f)
                          | Inr w5 \<Rightarrow> Some (Inr w5))))
             else
               Some (Inr (w2\<lparr>calls := calls w2 @
                   [Fprintf ''stderr''
                      (''Can't start PWM: '' @ (case error of Some e \<Rightarrow> e | None \<Rightarrow> ''(null)'')
                       @ [CHR 0x0A]),
                    Free_string error]\<rparr>)))"

section \<open>Sample runs\<close>

text \<open>
  A kernel that grants every request, the program of \<open>main\<close> run on it step by step, and
  kernels that refuse the export file or the value file.
\<close>

definition boot :: world where
  "boot = \<lparr>heap = (\<lambda>a. None), brk = 0, calls = [], errno = 0,
            fopen_fails = (\<lambda>cs f. None), open_returns = (\<lambda>cs f. Inr 3),
            strerror = (\<lambda>e. if e = 13 then ''Permission denied'' else ''No such file or directory'')\<rparr>"

definition created :: world where
  "created = snd (pwm_create 17 boot)"

definition started :: world where
  "started = (case pwm_start 1 20000 True created of Inr (r, w) \<Rightarrow> w | Inl f \<Rightarrow> created)"

definition half_on :: world where
  "half_on = (case pwm_set_duty 1 d_half started of Inr w \<Rightarrow> w | Inl f \<Rightarrow> started)"

definition stopped :: world where
  "stopped = (case pwm_stop 1 half_on of Inr w \<Rightarrow> w | Inl f \<Rightarrow> half_on)"

definition instance_of :: "world \<Rightarrow> PWM" where
  "instance_of w =
     (case heap w 1 of
        Some p \<Rightarrow> p
      | None \<Rightarrow> \<lparr>pin = 0, pthread = 0, stop = True, f_value = - 1,
                 cycle_usec = 0, on_usec = 0, off_usec = 0\<rparr>)"

text \<open>
  The instance as the loop sees it when \<open>pwm_stop\<close> runs from its first to its last
  statement right after the loop has evaluated its \<open>while\<close> condition.
\<close>

definition stop_after_check :: "nat \<Rightarrow> PWM" where
  "stop_after_check i = (if i = 0 then instance_of half_on else instance_of stopped)"

text \<open>The same when \<open>pwm_stop\<close> runs during the first on-sleep, and after one iteration.\<close>

definition stop_in_sleep :: "nat \<Rightarrow> PWM" where
  "stop_in_sleep i = (if i < 4 then instance_of half_on else instance_of stopped)"

definition stop_after_cycle :: "nat \<Rightarrow> PWM" where
  "stop_after_cycle i = (if i < 8 then instance_of half_on else instance_of stopped)"

definition no_export :: world where
  "no_export = snd (pwm_create 17 (boot\<lparr>fopen_fails := (\<lambda>cs f. Some 13)\<rparr>))"

definition no_value :: world where
  "no_value = snd (pwm_create 17 (boot\<lparr>open_returns := (\<lambda>cs f. Inl 2)\<rparr>))"

definition d_minus_one :: double where
  "d_minus_one = Finite True (2 ^ 52) (- 52)"

definition d_minus_half :: double where
  "d_minus_half = Finite True (2 ^ 52) (- 53)"

text \<open>The least double above \<open>1.0\<close>.\<close>

definition d_one_succ :: double where
  "d_one_succ = Finite False (2 ^ 52 + 1) (- 52)"

definition d_million :: double where
  "d_million = Finite False 1000000 0"

definition d_three_halves :: double where
  "d_three_halves = Finite False (3 * 2 ^ 51) (- 52)"

text \<open>The double nearest to one third.\<close>

definition d_third :: double where
  "d_third = Finite False 6004799503160661 (- 54)"

text \<open>
  The run in which \<open>pwm_set_duty\<close> was called with \<open>1.5\<close>, which leaves \<open>off_usec\<close> negative,
  and \<open>pwm_stop\<close> runs after one iteration of the loop.
\<close>

definition over_on :: world where
  "over_on = (case pwm_set_duty 1 d_three_halves started of Inr w \<Rightarrow> w | Inl f \<Rightarrow> started)"

definition over_stopped :: world where
  "over_stopped = (case pwm_stop 1 over_on of Inr w \<Rightarrow> w | Inl f \<Rightarrow> over_on)"

definition negative_off :: "nat \<Rightarrow> PWM" where
  "negative_off i = (if i < 8 then instance_of over_on else instance_of over_stopped)"


section \<open>Arithmetic lemmas\<close>

lemma floor_div_pow2: "\<lfloor>real m * 2 powi e\<rfloor> = (if 0 \<le> e then int m * 2 ^ nat e else int m div 2 ^ nat (- e))"
proof (cases "0 \<le> e")
  case True
  then have "real m * 2 powi e = of_int (int m * 2 ^ nat e)"
    by (simp add: power_int_def)
  then show ?thesis using True by (metis floor_of_int)
next
  case False
  then have "real m * 2 powi e = real_of_int (int m) / real_of_int (2 ^ nat (- e))"
    by (simp add: power_int_def field_simps)
  then have "\<lfloor>real m * 2 powi e\<rfloor> = int m div 2 ^ nat (- e)"
    by (simp only: floor_divide_of_int_eq)
  then show ?thesis using False by simp
qed

lemma mag_nonneg: "0 \<le> real m * 2 powi e"
  by simp

lemma round_toward_zero_dval:
  "round_toward_zero (dval (Finite s m e)) =
     (if s then - \<lfloor>real m * 2 powi e\<rfloor> else \<lfloor>real m * 2 powi e\<rfloor>)"
proof (cases "real m * 2 powi e = 0")
  case True
  then show ?thesis by (simp add: round_toward_zero_def)
next
  case False
  then have "0 < real m * 2 powi e"
    using mag_nonneg [of m e] by linarith
  then show ?thesis
    by (simp add: round_toward_zero_def ceiling_def)
qed

lemma double_to_int_Finite:
  "double_to_int (Finite s m e) =
     (if c_int (round_toward_zero (dval (Finite s m e)))
      then Some (round_toward_zero (dval (Finite s m e))) else None)"
  unfolding round_toward_zero_dval floor_div_pow2
  by (simp add: Let_def)

lemma double_to_int_Some:
  "double_to_int d = Some v \<longleftrightarrow> is_finite d \<and> c_int (round_toward_zero (dval d)) \<and> v = round_toward_zero (dval d)"
proof (cases d)
  case (Finite s m e)
  show ?thesis unfolding Finite double_to_int_Finite by auto
qed simp_all

lemma bit_len_0 [simp]: "bit_len 0 = 0"
  by (simp add: bit_len.simps)

lemma bit_len_less: "m < 2 ^ bit_len m"
proof (induction m rule: bit_len.induct)
  case (1 n)
  show ?case
  proof (cases "n = 0")
    case True
    then show ?thesis by simp
  next
    case False
    then have "n div 2 < 2 ^ bit_len (n div 2)" using 1 by simp
    then have "n < 2 * 2 ^ bit_len (n div 2)" by linarith
    then show ?thesis using False by (subst bit_len.simps) simp
  qed
qed

lemma bit_len_ge: "0 < m \<Longrightarrow> 2 ^ (bit_len m - 1) \<le> m"
proof (induction m rule: bit_len.induct)
  case (1 n)
  show ?case
  proof (cases "n div 2 = 0")
    case True
    then have "bit_len n = 1" using 1(2)
      by (subst bit_len.simps) simp
    then show ?thesis using 1(2) by simp
  next
    case False
    then have ih: "2 ^ (bit_len (n div 2) - 1) \<le> n div 2" using 1 by simp
    have pos: "0 < bit_len (n div 2)" using False by (subst bit_len.simps) simp
    have "bit_len n = Suc (bit_len (n div 2))" using 1(2) by (subst bit_len.simps) simp
    then have "(2::nat) ^ (bit_len n - 1) = 2 * 2 ^ (bit_len (n div 2) - 1)"
      using pos by (cases "bit_len (n div 2)") simp_all
    then show ?thesis using ih by linarith
  qed
qed

lemma bit_len_le: "m < 2 ^ n \<Longrightarrow> bit_len m \<le> n"
proof (rule ccontr)
  assume lt: "m < 2 ^ n" and "\<not> bit_len m \<le> n"
  then have n: "n \<le> bit_len m - 1" and pos: "0 < m"
    by (auto intro: gr0I)
  have "(2::nat) ^ n \<le> 2 ^ (bit_len m - 1)" using n by (simp add: power_increasing)
  then show False using bit_len_ge [OF pos] lt by linarith
qed


lemma bit_len_numeral [simp]:
  "bit_len (numeral (Num.Bit0 n)) = Suc (bit_len (numeral n))"
  "bit_len (numeral (Num.Bit1 n)) = Suc (bit_len (numeral n))"
  "bit_len (numeral Num.One) = 1"
  "bit_len (Suc 0) = 1"
  by (subst bit_len.simps, simp)+

lemma div_shift_less:
  assumes "int (bit_len m) - 53 \<le> int k"
  shows "m div 2 ^ k < 2 ^ 53"
proof -
  have "bit_len m \<le> 53 + k" using assms by linarith
  then have "(2::nat) ^ bit_len m \<le> 2 ^ (53 + k)" by (simp add: power_increasing)
  then have "m < 2 ^ 53 * 2 ^ k"
    using bit_len_less [of m] by (simp add: power_add)
  then show ?thesis by (rule less_mult_imp_div_less)
qed

lemma powi_succ: "(2::real) powi (e + 1) = 2 * 2 powi e"
  by (simp add: power_int_add)

lemma rne_Finite:
  assumes r: "round_nearest_even s m e = Finite s' q e'"
    and k: "k = nat (max (int (bit_len m) - 53) (- 1074 - e))"
  shows "s' = s \<and> q < 2 ^ 53 \<and> - 1074 \<le> e' \<and> int (bit_len q) + e' \<le> 1024
         \<and> (real q * 2 powi e' = real (m div 2 ^ k) * 2 powi (e + int k)
              \<or> real q * 2 powi e' = real (m div 2 ^ k + 1) * 2 powi (e + int k))"
proof -
  define q0 where "q0 = m div 2 ^ k"
  define q1 where "q1 = (if 2 ^ k < 2 * (m mod 2 ^ k) \<or> (2 * (m mod 2 ^ k) = 2 ^ k \<and> odd q0)
                         then q0 + 1 else q0)"
  have lt: "q0 < 2 ^ 53" unfolding q0_def by (rule div_shift_less) (use k in linarith)
  have q1: "q1 = q0 \<or> q1 = q0 + 1" by (simp add: q1_def)
  have ek: "- 1074 \<le> e + int k" using k by linarith
  have unf: "round_nearest_even s m e =
      (if 1024 < int (bit_len q1) + (e + int k) then Infinity s
       else if q1 = 2 ^ 53 then Finite s (2 ^ 52) (e + int k + 1)
       else Finite s q1 (e + int k))"
    by (simp only: round_nearest_even_def Let_def q1_def q0_def k)
  have fin: "\<not> 1024 < int (bit_len q1) + (e + int k)"
    using r unfolding unf by (auto split: if_splits)
  show ?thesis
  proof (cases "q1 = 2 ^ 53")
    case True
    then have res: "s' = s" "q = 2 ^ 52" "e' = e + int k + 1"
      using r fin unfolding unf by simp_all
    have "bit_len q1 = 54" unfolding True by simp
    then have b: "int (bit_len q) + e' \<le> 1024"
      using fin unfolding res by simp
    have "real q * 2 powi e' = real q1 * 2 powi (e + int k)"
      unfolding res True by (simp add: powi_succ)
    then show ?thesis
      using q1 res ek b unfolding q0_def by auto
  next
    case False
    then have res: "s' = s" "q = q1" "e' = e + int k"
      using r fin unfolding unf by simp_all
    have "q1 \<le> 2 ^ 53" using q1 lt by auto
    then have "q < 2 ^ 53" using False res by simp
    then show ?thesis
      using q1 res ek fin unfolding q0_def by auto
  qed
qed

lemma rne_is_double: "is_double (round_nearest_even s m e)"
proof (cases "round_nearest_even s m e")
  case (Finite s' q e')
  show ?thesis unfolding Finite using rne_Finite [OF Finite refl] by simp
qed simp_all

lemma double_mul_is_double: "is_double (double_mul x y)"
  by (cases x; cases y) (simp_all add: rne_is_double)

lemma powi_shift_lower:
  fixes n m q0 :: nat
  assumes le: "real n \<le> real m * 2 powi e" and n: "n < 2 ^ 53"
    and k: "k = nat (max (int (bit_len m) - 53) (- 1074 - e))"
  shows "real n \<le> real (m div 2 ^ k) * 2 powi (e + int k)"
proof -
  consider (zero) "k = 0" | (low) "0 < k" "e + int k \<le> 0" | (high) "0 < k" "0 < e + int k"
    by linarith
  then show ?thesis
  proof cases
    case zero
    then show ?thesis using le by simp
  next
    case low
    define j where "j = nat (- (e + int k))"
    have e: "e = - int (j + k)" using low by (simp add: j_def)
    have "(2::real) powi (- int (j + k)) = inverse (2 ^ (j + k))"
      by (simp only: power_int_minus power_int_of_nat)
    then have "real m * 2 powi e = real m / 2 ^ (j + k)"
      unfolding e by (simp only: divide_inverse)
    then have "real n \<le> real m / 2 ^ (j + k)"
      using le by (simp only:)
    then have "real n * 2 ^ (j + k) \<le> real m"
      by (simp add: pos_le_divide_eq)
    then have "real (n * 2 ^ (j + k)) \<le> real m" by simp
    then have "n * 2 ^ (j + k) \<le> m" by (simp only: of_nat_le_iff)
    then have "(n * 2 ^ j) * 2 ^ k \<le> m" by (simp add: power_add mult.assoc)
    then have "n * 2 ^ j \<le> m div 2 ^ k"
      by (simp add: less_eq_div_iff_mult_less_eq)
    then have "real (n * 2 ^ j) \<le> real (m div 2 ^ k)" by (simp only: of_nat_le_iff)
    then have "real n \<le> real (m div 2 ^ k) / 2 ^ j" by (simp add: pos_le_divide_eq)
    moreover have "e + int k = - int j" using e by simp
    moreover have "(2::real) powi (- int j) = inverse (2 ^ j)"
      by (simp only: power_int_minus power_int_of_nat)
    ultimately show ?thesis by (simp only: divide_inverse)
  next
    case high
    have kk: "int k = int (bit_len m) - 53"
    proof (rule ccontr)
      assume "int k \<noteq> int (bit_len m) - 53"
      then have "int k = - 1074 - e" using k high(1) by (simp add: max_def split: if_splits)
      then show False using high(2) by simp
    qed
    then have bl: "bit_len m - 1 = 52 + k" by linarith
    have "0 < m" using kk high(1) by (intro gr0I) auto
    then have "2 ^ (52 + k) \<le> m" using bit_len_ge [of m] bl by simp
    then have "2 ^ 52 * 2 ^ k \<le> m" by (simp add: power_add)
    then have q: "2 ^ 52 \<le> m div 2 ^ k"
      by (simp add: less_eq_div_iff_mult_less_eq)
    have "(2::real) ^ 1 \<le> 2 powi (e + int k)"
      using high(2) by (simp add: power_int_def self_le_power)
    moreover have "(2::real) ^ 52 \<le> real (m div 2 ^ k)"
      using q by (metis of_nat_le_iff of_nat_numeral of_nat_power)
    ultimately have "(2::real) ^ 52 * 2 ^ 1 \<le> real (m div 2 ^ k) * 2 powi (e + int k)"
      by (intro mult_mono) simp_all
    moreover have "real n < 2 ^ 53" using n by (metis of_nat_less_iff of_nat_numeral of_nat_power)
    ultimately show ?thesis by simp
  qed
qed

lemma rne_lower:
  assumes r: "round_nearest_even s m e = Finite s' q e'"
    and le: "real n \<le> real m * 2 powi e" and n: "n < 2 ^ 53"
  shows "s' = s \<and> real n \<le> real q * 2 powi e'"
proof -
  define k where "k = nat (max (int (bit_len m) - 53) (- 1074 - e))"
  have f: "s' = s"
    and v: "real q * 2 powi e' = real (m div 2 ^ k) * 2 powi (e + int k)
            \<or> real q * 2 powi e' = real (m div 2 ^ k + 1) * 2 powi (e + int k)"
    using rne_Finite [OF r k_def] by simp_all
  have "real n \<le> real (m div 2 ^ k) * 2 powi (e + int k)"
    by (rule powi_shift_lower [OF le n k_def])
  moreover have "real (m div 2 ^ k) * 2 powi (e + int k)
                   \<le> real (m div 2 ^ k + 1) * 2 powi (e + int k)"
    by (intro mult_right_mono) simp_all
  ultimately have "real n \<le> real q * 2 powi e'" using v by linarith
  then show ?thesis using f by simp
qed

lemma rne_exact:
  assumes k: "k = nat (max (int (bit_len m) - 53) (- 1074 - e))"
    and dvd: "2 ^ k dvd m" and fin: "int (bit_len (m div 2 ^ k)) + e + int k \<le> 1024"
  shows "round_nearest_even s m e = Finite s (m div 2 ^ k) (e + int k)"
proof -
  have z: "m mod 2 ^ k = 0" using dvd by simp
  have "m div 2 ^ k < 2 ^ 53" by (rule div_shift_less) (use k in linarith)
  then have ne: "m div 2 ^ k \<noteq> 2 ^ 53" by simp
  show ?thesis
    using fin ne z by (simp add: round_nearest_even_def Let_def k [symmetric])
qed

lemma exact_value:
  assumes "2 ^ k dvd (m::nat)"
  shows "real (m div 2 ^ k) * 2 powi (e + int k) = real m * 2 powi e"
proof -
  obtain q where m: "m = 2 ^ k * q" using assms by (auto elim: dvdE)
  have "(2::real) powi (e + int k) = 2 powi e * 2 ^ k"
    by (simp add: power_int_add)
  then show ?thesis unfolding m by simp
qed

lemma mul_zero:
  "double_mul (int_to_double c) d_zero = Finite (c < 0) 0 (- 1074)"
  by (simp add: int_to_double_def d_zero_def round_nearest_even_def Let_def)

lemma mul_one:
  assumes "0 \<le> c" "c \<le> INT_MAX"
  shows "\<exists>q e. double_mul (int_to_double c) d_one = Finite False q e \<and> real q * 2 powi e = real_of_int c"
proof -
  define m where "m = nat c * 2 ^ 52"
  define k where "k = nat (max (int (bit_len m) - 53) (- 1074 - (- 52)))"
  have "nat c < 2 ^ 31" using assms by (simp add: INT_MAX_def)
  then have "m < 2 ^ 31 * 2 ^ 52" unfolding m_def by simp
  then have "m < 2 ^ 83" by simp
  then have bl: "bit_len m \<le> 83" by (rule bit_len_le)
  then have k30: "k \<le> 30" unfolding k_def by simp
  then have "(2::nat) ^ k dvd 2 ^ 52" by (intro le_imp_power_dvd) simp
  then have dvd: "2 ^ k dvd m" unfolding m_def by (rule dvd_mult)
  have "m div 2 ^ k \<le> m" by simp
  then have "m div 2 ^ k < 2 ^ 83" using \<open>m < 2 ^ 83\<close> by linarith
  then have "bit_len (m div 2 ^ k) \<le> 83" by (rule bit_len_le)
  then have fin: "int (bit_len (m div 2 ^ k)) + (- 52) + int k \<le> 1024" using k30 by simp
  have r: "round_nearest_even False m (- 52) = Finite False (m div 2 ^ k) (- 52 + int k)"
    by (rule rne_exact [OF k_def dvd fin])
  have "real (m div 2 ^ k) * 2 powi (- 52 + int k) = real m * 2 powi (- 52)"
    by (rule exact_value [OF dvd])
  also have "\<dots> = real_of_int c" using assms(1) by (simp add: m_def power_int_minus)
  finally have v: "real (m div 2 ^ k) * 2 powi (- 52 + int k) = real_of_int c" .
  have "double_mul (int_to_double c) d_one = round_nearest_even False m (- 52)"
    using assms(1) by (simp add: int_to_double_def d_one_def m_def)
  then show ?thesis using r v by simp
qed

lemma conv_zero: "double_to_int (double_mul (int_to_double c) d_zero) = Some 0"
  by (simp add: mul_zero c_int_def INT_MIN_def INT_MAX_def)

lemma conv_one:
  assumes "0 \<le> c" "c \<le> INT_MAX"
  shows "double_to_int (double_mul (int_to_double c) d_one) = Some c"
proof -
  obtain q e where p: "double_mul (int_to_double c) d_one = Finite False q e"
    and v: "real q * 2 powi e = real_of_int c"
    using mul_one [OF assms] by blast
  have "round_toward_zero (dval (Finite False q e)) = c"
    using v assms(1) by (simp add: round_toward_zero_def)
  moreover have "c_int c" using assms by (simp add: c_int_def INT_MIN_def)
  ultimately show ?thesis unfolding p double_to_int_Finite by simp
qed



lemma rne_lower_mag:
  assumes "round_nearest_even s m e = Finite s' q e'"
    and "real n \<le> real m * 2 powi e" and "n < 2 ^ 53"
  shows "real n \<le> real q * 2 powi e'"
  using rne_lower [OF assms] by blast

lemma rtz_neg_mag:
  "round_toward_zero (dval (Finite True q e)) \<le> 0"
  unfolding round_toward_zero_dval by simp

lemma rtz_mag_lower:
  assumes "real n \<le> real q * 2 powi e"
  shows "int n \<le> round_toward_zero (dval (Finite False q e))"
    and "round_toward_zero (dval (Finite True q e)) \<le> - int n"
proof -
  have "int n \<le> \<lfloor>real q * 2 powi e\<rfloor>"
    using assms by (simp add: le_floor_iff)
  then show "int n \<le> round_toward_zero (dval (Finite False q e))"
    and "round_toward_zero (dval (Finite True q e)) \<le> - int n"
    unfolding round_toward_zero_dval by simp_all
qed

lemma product_negative:
  assumes c: "0 < c" and lt: "double_less duty d_zero"
    and fin: "is_finite (double_mul (int_to_double c) duty)"
  shows "\<exists>m e q e'. duty = Finite True m e
           \<and> double_mul (int_to_double c) duty = Finite True q e'
           \<and> round_nearest_even True (nat c * m) e = Finite True q e'"
proof (cases duty)
  case (Finite s m e)
  have "dval (Finite s m e) < 0" using lt by (simp add: Finite d_zero_def)
  then have s: "s"
    using mag_nonneg [of m e] by (cases s) simp_all
  have p: "double_mul (int_to_double c) duty = round_nearest_even True (nat c * m) e"
    using c s by (simp add: Finite int_to_double_def)
  obtain s' q e' where r: "round_nearest_even True (nat c * m) e = Finite s' q e'"
    using fin unfolding p by (cases "round_nearest_even True (nat c * m) e") simp_all
  have "s' = True" using rne_Finite [OF r] by simp
  then show ?thesis using Finite s p r by simp
next
  case (Infinity s)
  then show ?thesis using fin c by (simp add: int_to_double_def)
next
  case NaN
  then show ?thesis using lt by simp
qed

lemma product_above_one:
  assumes c: "0 < c" and lt: "double_less d_one duty"
    and fin: "is_finite (double_mul (int_to_double c) duty)"
  shows "\<exists>m e q e'. duty = Finite False m e \<and> 1 < real m * 2 powi e
           \<and> double_mul (int_to_double c) duty = Finite False q e'
           \<and> round_nearest_even False (nat c * m) e = Finite False q e'"
proof (cases duty)
  case (Finite s m e)
  have one: "dval d_one = 1" by (simp add: d_one_def power_int_minus)
  have gt: "1 < dval (Finite s m e)" using lt one by (simp add: Finite d_one_def)
  have s: "\<not> s"
  proof
    assume s
    then have "dval (Finite s m e) \<le> 0" by simp
    then show False using gt by linarith
  qed
  have p: "double_mul (int_to_double c) duty = round_nearest_even False (nat c * m) e"
    using c s by (simp add: Finite int_to_double_def)
  obtain s' q e' where r: "round_nearest_even False (nat c * m) e = Finite s' q e'"
    using fin unfolding p by (cases "round_nearest_even False (nat c * m) e") simp_all
  have "s' = False" using rne_Finite [OF r] by simp
  then show ?thesis using Finite s p r gt by simp
next
  case (Infinity s)
  then show ?thesis using fin c by (simp add: int_to_double_def)
next
  case NaN
  then show ?thesis using lt by (simp add: d_one_def)
qed

lemma c_int_less_pow53: "c_int c \<Longrightarrow> 0 < c \<Longrightarrow> nat c + 1 < 2 ^ 53"
  by (simp add: c_int_def INT_MAX_def) linarith

lemma int_to_double_is_double:
  assumes "c_int c"
  shows "is_double (int_to_double c)"
proof -
  have "nat \<bar>c\<bar> < 2 ^ 32" using assms by (simp add: c_int_def INT_MIN_def INT_MAX_def) linarith
  then have "bit_len (nat \<bar>c\<bar>) \<le> 32" by (rule bit_len_le)
  moreover have "nat \<bar>c\<bar> < 2 ^ 53"
    using assms by (simp add: c_int_def INT_MIN_def INT_MAX_def) linarith
  ultimately show ?thesis by (simp add: int_to_double_def)
qed

lemma sample_doubles:
  "is_double d_zero" "is_double d_one" "is_double d_half" "is_double d_minus_one"
  "is_double d_minus_half" "is_double d_one_succ" "is_double d_three_halves"
  "is_double d_million"
  by (simp_all add: d_zero_def d_one_def d_half_def d_minus_one_def d_minus_half_def
      d_one_succ_def d_three_halves_def d_million_def)

section \<open>Sample runs, evaluated\<close>

lemma decimal_17: "decimal 17 = ''17''"
  by (simp add: decimal_def digits.simps)

lemma boot_simps [simp]:
  "heap boot = (\<lambda>a. None)" "brk boot = 0" "calls boot = []" "errno boot = 0"
  "fopen_fails boot = (\<lambda>cs f. None)" "open_returns boot = (\<lambda>cs f. Inr 3)"
  by (simp_all add: boot_def)

lemma created_simps [simp]:
  "heap created = (\<lambda>a. None)(1 \<mapsto> \<lparr>pin = 17, pthread = 0, stop = False, f_value = - 1,
                    cycle_usec = 0, on_usec = 0, off_usec = 0\<rparr>)"
  "calls created = [Malloc 1]"
  "fopen_fails created = (\<lambda>cs f. None)" "open_returns created = (\<lambda>cs f. Inr 3)"
  by (simp_all add: created_def pwm_create_def Let_def)

lemma started_simps [simp]:
  "heap started = (\<lambda>a. None)(1 \<mapsto> \<lparr>pin = 17, pthread = 8, stop = False, f_value = 3,
                    cycle_usec = 20000, on_usec = 0, off_usec = 20000\<rparr>)"
  "calls started = [Malloc 1, Fopen ''/sys/class/gpio/export'',
      Fprintf ''/sys/class/gpio/export'' ''17'', Fclose ''/sys/class/gpio/export'',
      Fopen ''/sys/class/gpio/gpio17/direction'',
      Fprintf ''/sys/class/gpio/gpio17/direction'' ''out'',
      Fclose ''/sys/class/gpio/gpio17/direction'',
      Open ''/sys/class/gpio/gpio17/value'', Pthread_create 1, Pthread_detach 8]"
  "fopen_fails started = (\<lambda>cs f. None)"
  by (simp_all add: started_def pwm_start_def pwm_setup_pin_def NULL_def decimal_17 snprintf_def
      pwm_write_to_file_def open_wronly_def Let_def eval_nat_numeral)

lemma half_product: "double_mul (int_to_double 20000) d_half = Finite False 5497558138880000 (- 39)"
  by (simp add: int_to_double_def d_half_def round_nearest_even_def Let_def)

lemma rtz_half: "round_toward_zero (dval (Finite False 5497558138880000 (- 39))) = 10000"
  by (simp add: round_toward_zero_def)

lemma set_duty_half_started:
  "pwm_set_duty 1 d_half started = Inr (started\<lparr>heap := (\<lambda>a. None)(1 \<mapsto> \<lparr>pin = 17, pthread = 8, stop = False, f_value = 3,
                    cycle_usec = 20000, on_usec = 10000, off_usec = 10000\<rparr>)\<rparr>)"
  by (simp add: pwm_set_duty_def NULL_def half_product double_to_int_Finite rtz_half int_sub_def
      c_int_def INT_MIN_def INT_MAX_def)

lemma half_on_simps [simp]:
  "heap half_on = (\<lambda>a. None)(1 \<mapsto> \<lparr>pin = 17, pthread = 8, stop = False, f_value = 3,
                    cycle_usec = 20000, on_usec = 10000, off_usec = 10000\<rparr>)"
  "calls half_on = calls started"
  "fopen_fails half_on = (\<lambda>cs f. None)"
  unfolding half_on_def set_duty_half_started by simp_all

lemma stopped_simps [simp]:
  "heap stopped = (\<lambda>a. None)(1 \<mapsto> \<lparr>pin = 17, pthread = 8, stop = True, f_value = - 1,
                    cycle_usec = 20000, on_usec = 10000, off_usec = 10000\<rparr>)"
  "calls stopped = calls started @ [Fopen ''/sys/class/gpio/unexport'',
      Fprintf ''/sys/class/gpio/unexport'' ''17'', Fclose ''/sys/class/gpio/unexport'', Close 3]"
  by (simp_all add: stopped_def pwm_stop_def pwm_unsetup_pin_def NULL_def decimal_17 snprintf_def
      pwm_write_to_file_def Let_def)

lemma started_instance:
  "heap started 1 = Some \<lparr>pin = 17, pthread = 8, stop = False, f_value = 3,
                    cycle_usec = 20000, on_usec = 0, off_usec = 20000\<rparr>"
  by simp

lemma set_duty_minus_half_started:
  "pwm_set_duty 1 d_minus_half started
     = Inr (started\<lparr>heap := (heap started)(1 \<mapsto> \<lparr>pin = 17, pthread = 8, stop = False,
              f_value = 3, cycle_usec = 20000, on_usec = - 10000, off_usec = 30000\<rparr>)\<rparr>)"
  by (simp add: pwm_set_duty_def NULL_def int_to_double_def d_minus_half_def
      round_nearest_even_def Let_def int_sub_def c_int_def INT_MIN_def INT_MAX_def)

lemma set_duty_one_succ_started:
  "pwm_set_duty 1 d_one_succ started
     = Inr (started\<lparr>heap := (heap started)(1 \<mapsto> \<lparr>pin = 17, pthread = 8, stop = False,
              f_value = 3, cycle_usec = 20000, on_usec = 20000, off_usec = 0\<rparr>)\<rparr>)"
  by (simp add: pwm_set_duty_def NULL_def int_to_double_def d_one_succ_def
      round_nearest_even_def Let_def int_sub_def c_int_def INT_MIN_def INT_MAX_def)

lemma set_duty_three_halves_started:
  "pwm_set_duty 1 d_three_halves started
     = Inr (started\<lparr>heap := (heap started)(1 \<mapsto> \<lparr>pin = 17, pthread = 8, stop = False,
              f_value = 3, cycle_usec = 20000, on_usec = 30000, off_usec = - 10000\<rparr>)\<rparr>)"
  by (simp add: pwm_set_duty_def NULL_def int_to_double_def d_three_halves_def
      round_nearest_even_def Let_def int_sub_def c_int_def INT_MIN_def INT_MAX_def)

lemma sample_order:
  "double_less d_minus_half d_zero" "double_less d_one d_one_succ"
  "double_less d_one d_three_halves"
  "dval d_minus_half = - (1 / 2)" "dval d_three_halves = 3 / 2"
  by (simp_all add: d_minus_half_def d_zero_def d_one_def d_one_succ_def d_three_halves_def
      power_int_minus)

lemma no_export_simps [simp]:
  "heap no_export = (\<lambda>a. None)(1 \<mapsto> \<lparr>pin = 17, pthread = 0, stop = False, f_value = - 1,
                    cycle_usec = 0, on_usec = 0, off_usec = 0\<rparr>)"
  "calls no_export = [Malloc 1]"
  "fopen_fails no_export = (\<lambda>cs f. Some 13)"
  "strerror no_export 13 = ''Permission denied''"
  by (simp_all add: no_export_def pwm_create_def Let_def boot_def)

lemma setup_no_export:
  "pwm_setup_pin 1 no_export
     = Inr (- 1, no_export\<lparr>calls := [Malloc 1, Fopen ''/sys/class/gpio/export''], errno := 13\<rparr>)"
  by (simp add: pwm_setup_pin_def NULL_def Let_def pwm_write_to_file_def decimal_17 snprintf_def)

lemma start_created:
  "pwm_start 1 20000 True created = Inr ((True, None), started)"
  by (simp add: started_def pwm_start_def pwm_setup_pin_def NULL_def decimal_17 snprintf_def
      pwm_write_to_file_def open_wronly_def Let_def)

lemma no_value_simps [simp]:
  "heap no_value = (\<lambda>a. None)(1 \<mapsto> \<lparr>pin = 17, pthread = 0, stop = False, f_value = - 1,
                    cycle_usec = 0, on_usec = 0, off_usec = 0\<rparr>)"
  "calls no_value = [Malloc 1]"
  "fopen_fails no_value = (\<lambda>cs f. None)"
  "open_returns no_value = (\<lambda>cs f. Inl 2)"
  by (simp_all add: no_value_def pwm_create_def Let_def boot_def)

lemma instance_simps [simp]:
  "instance_of half_on = \<lparr>pin = 17, pthread = 8, stop = False, f_value = 3,
                    cycle_usec = 20000, on_usec = 10000, off_usec = 10000\<rparr>"
  "instance_of stopped = \<lparr>pin = 17, pthread = 8, stop = True, f_value = - 1,
                    cycle_usec = 20000, on_usec = 10000, off_usec = 10000\<rparr>"
  by (simp_all add: instance_of_def)

lemma sample_views [simp]:
  "stop (stop_after_check i) = (i \<noteq> 0)" "on_usec (stop_after_check i) = 10000"
  "off_usec (stop_after_check i) = 10000"
  "f_value (stop_after_check i) = (if i = 0 then 3 else - 1)"
  "stop (stop_in_sleep i) = (4 \<le> i)" "on_usec (stop_in_sleep i) = 10000"
  "off_usec (stop_in_sleep i) = 10000"
  "f_value (stop_in_sleep i) = (if i < 4 then 3 else - 1)"
  "stop (stop_after_cycle i) = (8 \<le> i)" "on_usec (stop_after_cycle i) = 10000"
  "off_usec (stop_after_cycle i) = 10000"
  "f_value (stop_after_cycle i) = (if i < 8 then 3 else - 1)"
  by (auto simp: stop_after_check_def stop_in_sleep_def stop_after_cycle_def)

lemma over_on_simps [simp]:
  "heap over_on = (\<lambda>a. None)(1 \<mapsto> \<lparr>pin = 17, pthread = 8, stop = False, f_value = 3,
                    cycle_usec = 20000, on_usec = 30000, off_usec = - 10000\<rparr>)"
  "calls over_on = calls started"
  "fopen_fails over_on = (\<lambda>cs f. None)"
  unfolding over_on_def set_duty_three_halves_started by simp_all

lemma over_stopped_simps [simp]:
  "heap over_stopped = (\<lambda>a. None)(1 \<mapsto> \<lparr>pin = 17, pthread = 8, stop = True, f_value = - 1,
                    cycle_usec = 20000, on_usec = 30000, off_usec = - 10000\<rparr>)"
  by (simp add: over_stopped_def pwm_stop_def pwm_unsetup_pin_def NULL_def decimal_17
      snprintf_def pwm_write_to_file_def Let_def)

lemma negative_off_view [simp]:
  "stop (negative_off i) = (8 \<le> i)" "on_usec (negative_off i) = 30000"
  "off_usec (negative_off i) = - 10000"
  "f_value (negative_off i) = (if i < 8 then 3 else - 1)"
  by (auto simp: negative_off_def instance_of_def)

lemma order_minus_one:
  "double_less d_zero d_one" "\<not> double_less d_zero d_minus_one"
  by (simp_all add: d_zero_def d_one_def d_minus_one_def)

lemma set_duty_zero_started:
  "pwm_set_duty 1 d_zero started = Inr started"
proof -
  have "pwm_set_duty 1 d_zero started
      = Inr (started\<lparr>heap := (heap started)(1 \<mapsto> \<lparr>pin = 17, pthread = 8, stop = False,
                f_value = 3, cycle_usec = 20000, on_usec = 0, off_usec = 20000\<rparr>)\<rparr>)"
    by (simp add: pwm_set_duty_def NULL_def conv_zero int_sub_def c_int_def INT_MIN_def INT_MAX_def)
  moreover have "(heap started)(1 \<mapsto> \<lparr>pin = 17, pthread = 8, stop = False,
                f_value = 3, cycle_usec = 20000, on_usec = 0, off_usec = 20000\<rparr>) = heap started"
    by (simp add: fun_eq_iff)
  ultimately show ?thesis by simp
qed

lemma create_boot: "pwm_create PIN boot = (1, created)"
  by (simp add: created_def PIN_def pwm_create_def Let_def)

lemma main_loop_minus_one:
  "main_loop 1 (\<lambda>i. Some d_minus_one) 0 d_one w
     = Some (Inr (w\<lparr>calls := calls w @
          [Printf ''Set on fraction (0.0-1.0) or a negative number to stop: '', Fflush, Fscanf]\<rparr>))"
  by (subst main_loop.simps, simp add: order_minus_one Let_def, subst main_loop.simps)
     (simp add: order_minus_one)

section \<open>Properties of \<open>pwm_set_duty\<close>\<close>

lemma set_duty_Inr:
  assumes "pwm_set_duty self duty w = Inr w'"
  shows "\<exists>s p. heap w self = Some s \<and> p = double_mul (int_to_double (cycle_usec s)) duty
           \<and> is_finite p
           \<and> w' = w\<lparr>heap := (heap w)(self \<mapsto> s\<lparr>on_usec := round_toward_zero (dval p),
                         off_usec := cycle_usec s - round_toward_zero (dval p)\<rparr>)\<rparr>"
  using assms
  by (auto simp: pwm_set_duty_def int_sub_def double_to_int_Some split: if_splits option.splits)

text \<open>
  Claim C1, as amended. Let \<open>p\<close> be the double product of the instance's \<open>cycle_usec\<close> and
  the fraction. Whenever \<open>p\<close> is finite, its value rounded toward zero is representable as
  an \<open>int\<close> and so is \<open>cycle_usec\<close> minus that value, \<open>pwm_set_duty\<close> returns and stores
  \<open>on_usec = round_toward_zero p\<close> and \<open>off_usec = cycle_usec - on_usec\<close>, so that
  \<open>on_usec + off_usec = cycle_usec\<close> exactly; nothing requires the fraction to lie in
  \<open>[0, 1]\<close>.
\<close>

theorem set_duty_intervals:
  assumes "self \<noteq> NULL" and "heap w self = Some s"
    and "p = double_mul (int_to_double (cycle_usec s)) duty"
    and "is_finite p"
    and "c_int (round_toward_zero (dval p))"
    and "c_int (cycle_usec s - round_toward_zero (dval p))"
  shows "\<exists>s'. pwm_set_duty self duty w = Inr (w\<lparr>heap := (heap w)(self \<mapsto> s')\<rparr>)
            \<and> on_usec s' = round_toward_zero (dval p)
            \<and> off_usec s' = cycle_usec s - on_usec s'
            \<and> on_usec s' + off_usec s' = cycle_usec s'"
proof -
  let ?on = "round_toward_zero (dval p)"
  have "double_to_int p = Some ?on"
    using assms(4,5) by (simp add: double_to_int_Some)
  then have "pwm_set_duty self duty w
      = Inr (w\<lparr>heap := (heap w)(self \<mapsto> s\<lparr>on_usec := ?on, off_usec := cycle_usec s - ?on\<rparr>)\<rparr>)"
    using assms(1,2,3,6) by (simp add: pwm_set_duty_def int_sub_def)
  then show ?thesis
    by (intro exI [of _ "s\<lparr>on_usec := ?on, off_usec := cycle_usec s - ?on\<rparr>"]) simp
qed

theorem set_duty_intervals_witness:
  "\<exists>s'. pwm_set_duty 1 d_half started = Inr (started\<lparr>heap := (heap started)(1 \<mapsto> s')\<rparr>)
      \<and> on_usec s' = 10000 \<and> off_usec s' = 10000 \<and> on_usec s' + off_usec s' = cycle_usec s'"
proof -
  let ?s = "\<lparr>pin = 17, pthread = 8, stop = False, f_value = 3,
             cycle_usec = 20000, on_usec = 0, off_usec = 20000\<rparr>"
  let ?p = "Finite False 5497558138880000 (- 39)"
  have a: "(1::addr) \<noteq> NULL" by (simp add: NULL_def)
  have b: "heap started 1 = Some ?s" by simp
  have c: "?p = double_mul (int_to_double (cycle_usec ?s)) d_half" by (simp add: half_product)
  have d: "is_finite ?p" by simp
  have e: "c_int (round_toward_zero (dval ?p))"
    unfolding rtz_half by (simp add: c_int_def INT_MIN_def INT_MAX_def)
  have f: "c_int (cycle_usec ?s - round_toward_zero (dval ?p))"
    unfolding rtz_half by (simp add: c_int_def INT_MIN_def INT_MAX_def)
  from set_duty_intervals [OF a b c d e f] show ?thesis
    unfolding rtz_half by auto
qed

text \<open>
  The product in claim C1 is the product of doubles, rounded to nearest, not the product of
  real numbers: with a cycle length of 3 and the double nearest to one third the former is
  exactly 1, so \<open>on_usec = 1\<close>, while the latter lies below 1.
\<close>

lemma product_is_rounded:
  "is_double d_third
   \<and> double_to_int (double_mul (int_to_double 3) d_third) = Some 1
   \<and> round_toward_zero (3 * dval d_third) = 0"
  by (simp add: d_third_def int_to_double_def round_nearest_even_def Let_def
      c_int_def INT_MIN_def INT_MAX_def round_toward_zero_def power_int_minus)

text \<open>
  Claim C1 as stated, for any double, fails: with \<open>cycle_usec = 20000\<close>, as \<open>main\<close> sets it,
  and the fraction \<open>1000000.0\<close> the product rounded toward zero is \<open>20000000000\<close>, which no
  \<open>int\<close> equals; the cast is undefined there and no pair is stored.
\<close>

theorem set_duty_huge_fraction:
  "map_option cycle_usec (heap started 1) = Some 20000
   \<and> pwm_set_duty 1 d_million started = Inl Conversion_Undefined
   \<and> round_toward_zero (dval (double_mul (int_to_double 20000) d_million)) = 20000000000
   \<and> \<not> c_int 20000000000"
  by (simp add: pwm_set_duty_def NULL_def int_to_double_def round_nearest_even_def Let_def
       c_int_def INT_MIN_def INT_MAX_def round_toward_zero_def d_million_def)

text \<open>
  Claim C9. For a cycle length that is a nonnegative \<open>int\<close>, \<open>pwm_set_duty\<close> with \<open>0.0\<close>
  stores \<open>on_usec = 0\<close> and \<open>off_usec = cycle_usec\<close>, and with \<open>1.0\<close> it stores
  \<open>on_usec = cycle_usec\<close> and \<open>off_usec = 0\<close>.
\<close>

theorem set_duty_zero_one:
  assumes "self \<noteq> NULL" and "heap w self = Some s"
    and "0 \<le> cycle_usec s" and "cycle_usec s \<le> INT_MAX"
  shows "pwm_set_duty self d_zero w
           = Inr (w\<lparr>heap := (heap w)(self \<mapsto> s\<lparr>on_usec := 0, off_usec := cycle_usec s\<rparr>)\<rparr>)
       \<and> pwm_set_duty self d_one w
           = Inr (w\<lparr>heap := (heap w)(self \<mapsto> s\<lparr>on_usec := cycle_usec s, off_usec := 0\<rparr>)\<rparr>)"
proof -
  have r: "c_int (cycle_usec s)" "c_int 0"
    using assms(3,4) by (simp_all add: c_int_def INT_MIN_def INT_MAX_def)
  show ?thesis
    using assms(1,2) r
    by (simp add: pwm_set_duty_def conv_zero conv_one [OF assms(3,4)] int_sub_def)
qed

theorem set_duty_zero_one_witness:
  "pwm_set_duty 1 d_zero started
     = Inr (started\<lparr>heap := (heap started)(1 \<mapsto> \<lparr>pin = 17, pthread = 8, stop = False,
              f_value = 3, cycle_usec = 20000, on_usec = 0, off_usec = 20000\<rparr>)\<rparr>)
   \<and> pwm_set_duty 1 d_one started
     = Inr (started\<lparr>heap := (heap started)(1 \<mapsto> \<lparr>pin = 17, pthread = 8, stop = False,
              f_value = 3, cycle_usec = 20000, on_usec = 20000, off_usec = 0\<rparr>)\<rparr>)"
proof -
  let ?s = "\<lparr>pin = 17, pthread = 8, stop = False, f_value = 3,
             cycle_usec = 20000, on_usec = 0, off_usec = 20000\<rparr>"
  have a: "(1::addr) \<noteq> NULL" by (simp add: NULL_def)
  have b: "heap started 1 = Some ?s" by simp
  have c: "0 \<le> cycle_usec ?s" by simp
  have d: "cycle_usec ?s \<le> INT_MAX" by (simp add: INT_MAX_def)
  from set_duty_zero_one [OF a b c d] show ?thesis by simp
qed

lemma set_duty_returns_framed:
  assumes "pwm_set_duty self duty w = Inr w'"
  shows "\<exists>s s'. heap w self = Some s \<and> w' = w\<lparr>heap := (heap w)(self \<mapsto> s')\<rparr>
           \<and> pin s' = pin s \<and> pthread s' = pthread s \<and> stop s' = stop s
           \<and> f_value s' = f_value s \<and> cycle_usec s' = cycle_usec s"
proof -
  from assms obtain s on off where s: "heap w self = Some s"
    and w': "w' = w\<lparr>heap := (heap w)(self \<mapsto> s\<lparr>on_usec := on, off_usec := off\<rparr>)\<rparr>"
    by (auto simp: pwm_set_duty_def split: if_splits option.splits)
  show ?thesis
    by (intro exI [of _ s] exI [of _ "s\<lparr>on_usec := on, off_usec := off\<rparr>"]) (simp add: s w')
qed




text \<open>
  Claim C3, as amended. For a positive cycle length and a fraction on which the arithmetic
  of \<open>pwm_set_duty\<close> is defined, no clamping takes place: a fraction below \<open>0.0\<close> gives
  \<open>on_usec \<le> 0\<close> and \<open>off_usec \<ge> cycle_usec\<close>, strictly as soon as the product of cycle
  length and fraction is at most \<open>- 1\<close>; a fraction above \<open>1.0\<close> gives \<open>on_usec \<ge> cycle_usec\<close>
  and \<open>off_usec \<le> 0\<close>, strictly as soon as the product is at least \<open>cycle_usec + 1\<close>.
\<close>

theorem set_duty_outside_unit:
  assumes h: "heap w self = Some s" and pos: "0 < cycle_usec s" and ci: "c_int (cycle_usec s)"
    and run: "pwm_set_duty self duty w = Inr w'" and h': "heap w' self = Some s'"
  shows "(double_less duty d_zero \<longrightarrow> on_usec s' \<le> 0 \<and> cycle_usec s \<le> off_usec s')
       \<and> (double_less duty d_zero \<and> real_of_int (cycle_usec s) * dval duty \<le> - 1
            \<longrightarrow> on_usec s' < 0 \<and> cycle_usec s < off_usec s')
       \<and> (double_less d_one duty \<longrightarrow> cycle_usec s \<le> on_usec s' \<and> off_usec s' \<le> 0)
       \<and> (double_less d_one duty
              \<and> real_of_int (cycle_usec s) + 1 \<le> real_of_int (cycle_usec s) * dval duty
            \<longrightarrow> cycle_usec s < on_usec s' \<and> off_usec s' < 0)"
proof -
  define c where "c = cycle_usec s"
  define p where "p = double_mul (int_to_double c) duty"
  have fin: "is_finite p"
    and on: "on_usec s' = round_toward_zero (dval p)"
    and off: "off_usec s' = c - on_usec s'"
    using set_duty_Inr [OF run] h h' by (auto simp: p_def c_def)
  have cpos: "0 < c" using pos by (simp add: c_def)
  have n53: "nat c < 2 ^ 53" "nat c + 1 < 2 ^ 53"
    using c_int_less_pow53 [OF ci pos] by (simp_all add: c_def)
  have neg: "on_usec s' \<le> 0 \<and> (real_of_int c * dval duty \<le> - 1 \<longrightarrow> on_usec s' < 0)"
    if lt: "double_less duty d_zero"
  proof -
    obtain m e q e' where d: "duty = Finite True m e" and pq: "p = Finite True q e'"
      and r: "round_nearest_even True (nat c * m) e = Finite True q e'"
      using product_negative [OF cpos lt fin [unfolded p_def]] unfolding p_def by blast
    have a: "on_usec s' \<le> 0" unfolding on pq by (rule rtz_neg_mag)
    have b: "on_usec s' < 0" if big: "real_of_int c * dval duty \<le> - 1"
    proof -
      have ex: "real (nat c * m) * 2 powi e = - (real_of_int c * dval duty)"
        using cpos by (simp add: d)
      have "1 \<le> real (nat c * m) * 2 powi e"
        unfolding ex using big by linarith
      then have "real 1 \<le> real (nat c * m) * 2 powi e" by (simp only: of_nat_1)
      then have "real 1 \<le> real q * 2 powi e'"
        by (rule rne_lower_mag [OF r]) simp
      then have "round_toward_zero (dval (Finite True q e')) \<le> - int 1"
        by (rule rtz_mag_lower(2))
      then show ?thesis unfolding on pq by simp
    qed
    show ?thesis using a b by blast
  qed
  have above: "c \<le> on_usec s' \<and> (real_of_int c + 1 \<le> real_of_int c * dval duty \<longrightarrow> c < on_usec s')"
    if lt: "double_less d_one duty"
  proof -
    obtain m e q e' where d: "duty = Finite False m e" and gt: "1 < real m * 2 powi e"
      and pq: "p = Finite False q e'"
      and r: "round_nearest_even False (nat c * m) e = Finite False q e'"
      using product_above_one [OF cpos lt fin [unfolded p_def]] unfolding p_def by blast
    have ex: "real (nat c * m) * 2 powi e = real_of_int c * dval duty"
      using cpos by (simp add: d)
    have "real_of_int c * 1 \<le> real_of_int c * (real m * 2 powi e)"
      using cpos gt by (intro mult_left_mono) simp_all
    moreover have "real (nat c * m) * 2 powi e = real_of_int c * (real m * 2 powi e)"
      using cpos by simp
    moreover have "real (nat c) = real_of_int c" using cpos by simp
    ultimately have "real (nat c) \<le> real (nat c * m) * 2 powi e"
      by linarith
    then have "real (nat c) \<le> real q * 2 powi e'"
      by (rule rne_lower_mag [OF r _ n53(1)])
    then have "int (nat c) \<le> round_toward_zero (dval (Finite False q e'))"
      by (rule rtz_mag_lower(1))
    then have a: "c \<le> on_usec s'" unfolding on pq using cpos by simp
    have b: "c < on_usec s'" if big: "real_of_int c + 1 \<le> real_of_int c * dval duty"
    proof -
      have "real (nat c + 1) = real_of_int c + 1" using cpos by simp
      then have "real (nat c + 1) \<le> real (nat c * m) * 2 powi e"
        unfolding ex using big by linarith
      then have "real (nat c + 1) \<le> real q * 2 powi e'"
        by (rule rne_lower_mag [OF r _ n53(2)])
      then have "int (nat c + 1) \<le> round_toward_zero (dval (Finite False q e'))"
        by (rule rtz_mag_lower(1))
      then show ?thesis unfolding on pq using cpos by simp
    qed
    show ?thesis using a b by blast
  qed
  show ?thesis
    using neg above off unfolding c_def [symmetric] by auto
qed

theorem set_duty_outside_unit_witness:
  "double_less d_minus_half d_zero \<and> real_of_int 20000 * dval d_minus_half \<le> - 1
   \<and> (\<exists>s'. pwm_set_duty 1 d_minus_half started = Inr (started\<lparr>heap := (heap started)(1 \<mapsto> s')\<rparr>)
          \<and> on_usec s' < 0 \<and> 20000 < off_usec s')
   \<and> double_less d_one d_three_halves
   \<and> real_of_int 20000 + 1 \<le> real_of_int 20000 * dval d_three_halves
   \<and> (\<exists>s'. pwm_set_duty 1 d_three_halves started = Inr (started\<lparr>heap := (heap started)(1 \<mapsto> s')\<rparr>)
          \<and> 20000 < on_usec s' \<and> off_usec s' < 0)"
proof -
  let ?s = "\<lparr>pin = 17, pthread = 8, stop = False, f_value = 3,
             cycle_usec = 20000, on_usec = 0, off_usec = 20000\<rparr>"
  let ?lo = "?s\<lparr>on_usec := - 10000, off_usec := 30000\<rparr>"
  let ?hi = "?s\<lparr>on_usec := 30000, off_usec := - 10000\<rparr>"
  have pos: "0 < cycle_usec ?s" by simp
  have ci: "c_int (cycle_usec ?s)" by (simp add: c_int_def INT_MIN_def INT_MAX_def)
  have lo: "heap (started\<lparr>heap := (heap started)(1 \<mapsto> ?lo)\<rparr>) 1 = Some ?lo" by simp
  have hi: "heap (started\<lparr>heap := (heap started)(1 \<mapsto> ?hi)\<rparr>) 1 = Some ?hi" by simp
  have a: "real_of_int 20000 * dval d_minus_half \<le> - 1"
    and b: "real_of_int 20000 + 1 \<le> real_of_int 20000 * dval d_three_halves"
    by (simp_all add: sample_order)
  have "on_usec ?lo < 0 \<and> cycle_usec ?s < off_usec ?lo"
    using set_duty_outside_unit [OF started_instance pos ci _ lo, of d_minus_half]
      set_duty_minus_half_started sample_order(1) a by simp
  then have L: "\<exists>s'. pwm_set_duty 1 d_minus_half started
                    = Inr (started\<lparr>heap := (heap started)(1 \<mapsto> s')\<rparr>)
                  \<and> on_usec s' < 0 \<and> 20000 < off_usec s'"
    using set_duty_minus_half_started by (intro exI [of _ ?lo]) simp
  have "cycle_usec ?s < on_usec ?hi \<and> off_usec ?hi < 0"
    using set_duty_outside_unit [OF started_instance pos ci _ hi, of d_three_halves]
      set_duty_three_halves_started sample_order(3) b by simp
  then have H: "\<exists>s'. pwm_set_duty 1 d_three_halves started
                    = Inr (started\<lparr>heap := (heap started)(1 \<mapsto> s')\<rparr>)
                  \<and> 20000 < on_usec s' \<and> off_usec s' < 0"
    using set_duty_three_halves_started by (intro exI [of _ ?hi]) simp
  show ?thesis
    using a b sample_order(1,3) L H by blast
qed

text \<open>
  Claim C3 as stated fails in both halves. With \<open>cycle_usec = 20000\<close> the fraction \<open>- 0.5\<close>
  gives \<open>off_usec = 30000\<close>, which is not negative (a negative fraction makes \<open>on_usec\<close>
  negative, never \<open>off_usec\<close>), and the least double above \<open>1.0\<close> gives \<open>on_usec = 20000\<close>,
  which does not exceed the cycle length.
\<close>

theorem set_duty_outside_unit_not_as_stated:
  "double_less d_minus_half d_zero
   \<and> pwm_set_duty 1 d_minus_half started
       = Inr (started\<lparr>heap := (heap started)(1 \<mapsto> \<lparr>pin = 17, pthread = 8, stop = False,
                f_value = 3, cycle_usec = 20000, on_usec = - 10000, off_usec = 30000\<rparr>)\<rparr>)
   \<and> double_less d_one d_one_succ
   \<and> pwm_set_duty 1 d_one_succ started
       = Inr (started\<lparr>heap := (heap started)(1 \<mapsto> \<lparr>pin = 17, pthread = 8, stop = False,
                f_value = 3, cycle_usec = 20000, on_usec = 20000, off_usec = 0\<rparr>)\<rparr>)"
  using sample_order(1,2) set_duty_minus_half_started set_duty_one_succ_started by simp

section \<open>Properties of \<open>pwm_start\<close>\<close>

lemma setup_pin_failure:
  assumes "pwm_setup_pin self w = Inr (r, w1)" and "r \<noteq> 0"
  shows "\<exists>e. fopen_fails w (calls w) ''/sys/class/gpio/export'' = Some e
           \<and> w1 = w\<lparr>calls := calls w @ [Fopen ''/sys/class/gpio/export''], errno := e\<rparr>"
  using assms
  by (auto simp: pwm_setup_pin_def Let_def pwm_write_to_file_def open_wronly_def
      split: if_splits option.splits prod.splits sum.splits)

text \<open>
  The failure that \<open>pwm_setup_pin\<close> reports, and it reports none but a refused \<open>fopen\<close> of
  the export file, is handled by \<open>pwm_start\<close>: it returns \<open>FALSE\<close>; if the caller passed a
  place for it, the error string is \<open>Can't set up pin: \<close> followed by the text of the
  \<open>errno\<close> of that \<open>fopen\<close>; no other call is issued, so no thread is created; and every
  instance on the heap is as it was before the call.
\<close>

lemma start_failure:
  assumes "pwm_setup_pin self w = Inr (r, w1)" and "r \<noteq> 0"
  shows "\<exists>e. fopen_fails w (calls w) ''/sys/class/gpio/export'' = Some e
           \<and> pwm_start self cycle error w
               = Inr ((False, if error then Some (''Can't set up pin: '' @ strerror w e) else None),
                      w1)
           \<and> heap w1 = heap w
           \<and> calls w1 = calls w @ [Fopen ''/sys/class/gpio/export'']"
proof -
  obtain e where e: "fopen_fails w (calls w) ''/sys/class/gpio/export'' = Some e"
    and w1: "w1 = w\<lparr>calls := calls w @ [Fopen ''/sys/class/gpio/export''], errno := e\<rparr>"
    using setup_pin_failure [OF assms] by blast
  have "self \<noteq> NULL" using assms(1) by (auto simp: pwm_setup_pin_def split: if_splits)
  then have "pwm_start self cycle error w
      = Inr ((False, if error then Some (''Can't set up pin: '' @ strerror w e) else None), w1)"
    using assms by (simp add: pwm_start_def w1)
  then show ?thesis using e w1 by simp
qed

lemma start_failure_no_export:
  "pwm_setup_pin 1 no_export
     = Inr (- 1, no_export\<lparr>calls := [Malloc 1, Fopen ''/sys/class/gpio/export''], errno := 13\<rparr>)
   \<and> pwm_start 1 20000 True no_export
     = Inr ((False, Some ''Can't set up pin: Permission denied''),
            no_export\<lparr>calls := [Malloc 1, Fopen ''/sys/class/gpio/export''], errno := 13\<rparr>)
   \<and> heap (no_export\<lparr>calls := [Malloc 1, Fopen ''/sys/class/gpio/export''], errno := 13\<rparr>)
     = heap no_export"
proof -
  have ne: "(- 1::int) \<noteq> 0" by simp
  from start_failure [OF setup_no_export ne, of 20000 True] show ?thesis
    using setup_no_export by auto
qed

text \<open>
  Claim C4 does not hold of the code. The pin is not claimed either when the value file
  cannot be opened, and then \<open>pwm_setup_pin\<close> returns 0 all the same (the slip of claim
  C2): \<open>pwm_start\<close> returns \<open>TRUE\<close> with no error string, overwrites \<open>cycle_usec\<close> and
  \<open>off_usec\<close> of an instance that holds no handle (\<open>f_value = - 1\<close>), and creates the thread.
\<close>

theorem start_value_not_opened:
  "heap no_value 1 = Some \<lparr>pin = 17, pthread = 0, stop = False, f_value = - 1,
                             cycle_usec = 0, on_usec = 0, off_usec = 0\<rparr>
   \<and> open_returns no_value
        [Malloc 1, Fopen ''/sys/class/gpio/export'',
         Fprintf ''/sys/class/gpio/export'' ''17'', Fclose ''/sys/class/gpio/export'',
         Fopen ''/sys/class/gpio/gpio17/direction'',
         Fprintf ''/sys/class/gpio/gpio17/direction'' ''out'',
         Fclose ''/sys/class/gpio/gpio17/direction'']
        ''/sys/class/gpio/gpio17/value'' = Inl 2
   \<and> pwm_start 1 20000 True no_value
       = Inr ((True, None),
              no_value\<lparr>heap := (heap no_value)(1 \<mapsto> \<lparr>pin = 17, pthread = 8, stop = False,
                           f_value = - 1, cycle_usec = 20000, on_usec = 0, off_usec = 20000\<rparr>),
                 calls := [Malloc 1, Fopen ''/sys/class/gpio/export'',
                           Fprintf ''/sys/class/gpio/export'' ''17'',
                           Fclose ''/sys/class/gpio/export'',
                           Fopen ''/sys/class/gpio/gpio17/direction'',
                           Fprintf ''/sys/class/gpio/gpio17/direction'' ''out'',
                           Fclose ''/sys/class/gpio/gpio17/direction'',
                           Open ''/sys/class/gpio/gpio17/value'',
                           Pthread_create 1, Pthread_detach 8],
                 errno := 2\<rparr>)"
  by (simp add: pwm_start_def pwm_setup_pin_def NULL_def decimal_17 snprintf_def
      pwm_write_to_file_def open_wronly_def Let_def eval_nat_numeral)

text \<open>
  Claim C5. Whenever \<open>pwm_start\<close> returns \<open>TRUE\<close>, the instance has \<open>cycle_usec\<close> equal to
  the requested cycle length, \<open>on_usec = 0\<close>, \<open>off_usec\<close> equal to the cycle length and
  \<open>stop\<close> cleared, and the last two calls issued are \<open>pthread_create\<close> of \<open>pwm_loop\<close> on
  this instance and \<open>pthread_detach\<close> of the thread recorded in the field \<open>pthread\<close>.
\<close>

theorem start_success:
  assumes "pwm_start self cycle error w = Inr ((True, err), w')"
  shows "\<exists>p cs. heap w' self = Some p \<and> cycle_usec p = cycle \<and> on_usec p = 0
           \<and> off_usec p = cycle \<and> stop p = False
           \<and> calls w' = cs @ [Pthread_create self, Pthread_detach (pthread p)]"
  using assms
  by (auto simp: pwm_start_def Let_def split: if_splits sum.splits prod.splits option.splits)

theorem start_success_witness:
  "pwm_start 1 20000 True created = Inr ((True, None), started)
   \<and> (\<exists>p cs. heap started 1 = Some p \<and> cycle_usec p = 20000 \<and> on_usec p = 0
           \<and> off_usec p = 20000 \<and> stop p = False
           \<and> calls started = cs @ [Pthread_create 1, Pthread_detach (pthread p)])"
  using start_success [OF start_created] start_created by simp

text \<open>
  Claim C2 does not hold of the code. On a kernel that accepts the export file and the
  direction file but fails \<open>open\<close> on the value file, \<open>pwm_setup_pin\<close> stores the
  descriptor \<open>-1\<close> and still returns 0, because its variable \<open>ret\<close> is 0 from the export
  and the test \<open>f_value >= 0\<close> can only set it to 0 again; \<open>pwm_start\<close> then returns \<open>TRUE\<close>
  with no error string and creates the thread.
\<close>

theorem setup_pin_value_not_opened:
  "fopen_fails no_value (calls no_value) ''/sys/class/gpio/export'' = None
   \<and> open_returns no_value
        [Malloc 1, Fopen ''/sys/class/gpio/export'',
         Fprintf ''/sys/class/gpio/export'' ''17'', Fclose ''/sys/class/gpio/export'',
         Fopen ''/sys/class/gpio/gpio17/direction'',
         Fprintf ''/sys/class/gpio/gpio17/direction'' ''out'',
         Fclose ''/sys/class/gpio/gpio17/direction'']
        ''/sys/class/gpio/gpio17/value'' = Inl 2
   \<and> map_sum id fst (pwm_setup_pin 1 no_value) = Inr 0
   \<and> map_sum id (\<lambda>(r, w). map_option f_value (heap w 1)) (pwm_setup_pin 1 no_value)
       = Inr (Some (- 1))
   \<and> map_sum id fst (pwm_start 1 20000 True no_value) = Inr (True, None)
   \<and> map_sum id (\<lambda>(r, w). drop 8 (calls w)) (pwm_start 1 20000 True no_value)
       = Inr [Pthread_create 1, Pthread_detach 8]"
  by (simp add: pwm_start_def pwm_setup_pin_def NULL_def decimal_17 snprintf_def
      pwm_write_to_file_def open_wronly_def Let_def)

section \<open>Properties of \<open>pwm_loop\<close>\<close>

lemma loop_stopped: "stop (mem t) \<Longrightarrow> pwm_loop mem t acc = Some acc"
  by (subst pwm_loop.simps) simp

lemma loop_unfold:
  "\<not> stop (mem t) \<Longrightarrow> pwm_loop mem t acc = pwm_loop mem (t + 8) (acc @ issued_steps mem t)"
  by (subst pwm_loop.simps)
     (simp add: issued_steps_def iteration_steps_def pwm_set_pin_def Let_def)

lemma useconds_t_id: "0 \<le> x \<Longrightarrow> x \<le> INT_MAX \<Longrightarrow> useconds_t x = x"
  by (simp add: useconds_t_def INT_MAX_def)

lemma issued_as_specified:
  assumes "0 \<le> on_usec (mem (t + 3))" and "on_usec (mem (t + 3)) \<le> INT_MAX"
    and "stop (mem (t + 4))
         \<or> (0 \<le> off_usec (mem (t + 7)) \<and> off_usec (mem (t + 7)) \<le> INT_MAX)"
  shows "issued_steps mem t = iteration_steps mem t"
  using assms by (auto simp: issued_steps_def iteration_steps_def useconds_t_id)

text \<open>
  Claim C6, as amended. Let an iteration find the stop signal unset at its \<open>while\<close>
  condition, and let the intervals it sleeps for be nonnegative \<open>int\<close>s. Then it issues
  exactly the steps of \<open>iteration_steps\<close>, in that order, and returns to the \<open>while\<close>
  condition: HIGH is written if and only if \<open>on_usec\<close> is nonzero, the loop sleeps for
  \<open>on_usec\<close> microseconds, re-checks the stop signal, and unless it is set writes LOW if and
  only if \<open>off_usec\<close> is nonzero and sleeps for \<open>off_usec\<close> microseconds. When the re-check
  finds the signal set, neither the LOW write nor the second sleep is issued, and the loop
  returns at the \<open>while\<close> condition it evaluates next, where the signal is still set.
\<close>

theorem loop_iteration:
  assumes "\<not> stop (mem t)"
    and "0 \<le> on_usec (mem (t + 3))" and "on_usec (mem (t + 3)) \<le> INT_MAX"
    and "stop (mem (t + 4))
         \<or> (0 \<le> off_usec (mem (t + 7)) \<and> off_usec (mem (t + 7)) \<le> INT_MAX)"
  shows "pwm_loop mem t acc = pwm_loop mem (t + 8) (acc @ iteration_steps mem t)
       \<and> (stop (mem (t + 4)) \<and> stop (mem (t + 8)) \<longrightarrow>
            pwm_loop mem t acc
              = Some (acc @ (if on_usec (mem (t + 1)) \<noteq> 0
                             then [(t + 2, Write (f_value (mem (t + 2))) ''1'')] else [])
                          @ [(t + 3, Usleep (on_usec (mem (t + 3))))]))"
proof -
  have eq: "pwm_loop mem t acc = pwm_loop mem (t + 8) (acc @ iteration_steps mem t)"
    using loop_unfold [of mem t acc] assms(1) issued_as_specified [OF assms(2,3,4)] by simp
  then show ?thesis
    by (simp add: loop_stopped iteration_steps_def)
qed

theorem loop_iteration_witness:
  "\<not> stop (stop_in_sleep 0) \<and> stop (stop_in_sleep 4) \<and> stop (stop_in_sleep 8)
   \<and> 0 \<le> on_usec (stop_in_sleep 3) \<and> on_usec (stop_in_sleep 3) \<le> INT_MAX
   \<and> pwm_loop stop_in_sleep 0 [] = Some [(2, Write 3 ''1''), (3, Usleep 10000)]
   \<and> \<not> stop (stop_after_cycle 0) \<and> \<not> stop (stop_after_cycle 4) \<and> stop (stop_after_cycle 8)
   \<and> 0 \<le> on_usec (stop_after_cycle 3) \<and> on_usec (stop_after_cycle 3) \<le> INT_MAX
   \<and> 0 \<le> off_usec (stop_after_cycle 7) \<and> off_usec (stop_after_cycle 7) \<le> INT_MAX
   \<and> pwm_loop stop_after_cycle 0 []
       = Some [(2, Write 3 ''1''), (3, Usleep 10000), (6, Write 3 ''0''), (7, Usleep 10000)]"
proof -
  have "pwm_loop stop_in_sleep 0 [] = Some [(2, Write 3 ''1''), (3, Usleep 10000)]"
    using loop_iteration [of stop_in_sleep 0 "[]", THEN conjunct2]
    by (simp add: numeral_2_eq_2 INT_MAX_def)
  moreover have "pwm_loop stop_after_cycle 0 []
       = Some [(2, Write 3 ''1''), (3, Usleep 10000), (6, Write 3 ''0''), (7, Usleep 10000)]"
    using loop_iteration [of stop_after_cycle 0 "[]", THEN conjunct1]
      loop_stopped [of stop_after_cycle 8]
    by (simp add: iteration_steps_def numeral_2_eq_2 INT_MAX_def)
  ultimately show ?thesis by (simp add: INT_MAX_def)
qed

text \<open>
  Claim C6 as stated, for every iteration, fails where an interval is negative. After
  \<open>pwm_set_duty\<close> with \<open>1.5\<close> on a cycle of 20000 the instance has \<open>off_usec = - 10000\<close>; the
  steps of the claim end with a sleep of \<open>off_usec\<close> microseconds, but the loop passes
  \<open>off_usec\<close> to \<open>usleep\<close>, which receives 4294957296.
\<close>

theorem negative_interval_sleep:
  "off_usec (negative_off 7) = - 10000
   \<and> iteration_steps negative_off 0
       = [(2, Write 3 ''1''), (3, Usleep 30000), (6, Write 3 ''0''), (7, Usleep (- 10000))]
   \<and> pwm_loop negative_off 0 []
       = Some [(2, Write 3 ''1''), (3, Usleep 30000), (6, Write 3 ''0''), (7, Usleep 4294957296)]"
proof -
  have "pwm_loop negative_off 0 []
       = Some [(2, Write 3 ''1''), (3, Usleep 30000), (6, Write 3 ''0''), (7, Usleep 4294957296)]"
    using loop_unfold [of negative_off 0 "[]"] loop_stopped [of negative_off 8]
    by (simp add: issued_steps_def iteration_steps_def useconds_t_def numeral_2_eq_2)
  then show ?thesis by (simp add: iteration_steps_def numeral_2_eq_2)
qed

lemma writes_from_append [simp]:
  "writes_from r (xs @ ys) = writes_from r xs @ writes_from r ys"
  by (simp add: writes_from_def)

lemma iteration_before:
  "t + 8 \<le> r \<Longrightarrow> writes_from r (issued_steps mem t) = []"
  by (simp add: writes_from_def issued_steps_def iteration_steps_def)

lemma iteration_across:
  assumes "\<forall>i\<ge>r. stop (mem i)"
  shows "length (writes_from r (issued_steps mem t)) \<le> 1"
proof (cases "r \<le> t + 4")
  case True
  then have "stop (mem (t + 4))" using assms by simp
  then show ?thesis by (simp add: writes_from_def issued_steps_def iteration_steps_def)
next
  case False
  then show ?thesis by (simp add: writes_from_def issued_steps_def iteration_steps_def)
qed

text \<open>
  Claim C7, as amended. In every interleaving, once \<open>pwm_stop\<close> has set the stop flag, at
  instant \<open>r\<close>, and nothing clears it, the loop returns, and of the pin writes it issues
  at most one is issued at instant \<open>r\<close> or later: the write of the phase whose check of the
  flag came before \<open>r\<close>. \<open>pwm_stop\<close> does not wait for the loop, so that one write can
  follow the release of the handle.
\<close>

theorem loop_after_stop:
  assumes "\<forall>i\<ge>r. stop (mem i)"
  shows "\<exists>tr. pwm_loop mem t acc = Some (acc @ tr) \<and> length (writes_from r tr) \<le> 1"
proof (induction "r - t" arbitrary: t acc rule: less_induct)
  case less
  show ?case
  proof (cases "stop (mem t)")
    case True
    then have "pwm_loop mem t acc = Some (acc @ [])" by (simp add: loop_stopped)
    then show ?thesis by (intro exI [of _ "[]"]) (simp add: writes_from_def)
  next
    case False
    then have tr: "t < r" using assms by (meson not_le_imp_less)
    have step: "pwm_loop mem t acc = pwm_loop mem (t + 8) (acc @ issued_steps mem t)"
      using False by (rule loop_unfold [of mem t])
    show ?thesis
    proof (cases "t + 8 \<le> r")
      case True
      then have "r - (t + 8) < r - t" using tr by simp
      then obtain tr' where r: "pwm_loop mem (t + 8) (acc @ issued_steps mem t)
                                  = Some ((acc @ issued_steps mem t) @ tr')"
        and n: "length (writes_from r tr') \<le> 1"
        using less [of "t + 8" "acc @ issued_steps mem t"] by blast
      show ?thesis
        using step r n iteration_before [OF True, of mem]
        by (intro exI [of _ "issued_steps mem t @ tr'"]) simp
    next
      case False
      then have "stop (mem (t + 8))" using assms by simp
      then have "pwm_loop mem (t + 8) (acc @ issued_steps mem t)
                   = Some (acc @ issued_steps mem t)"
        by (rule loop_stopped [of mem "t + 8"])
      then show ?thesis
        using step iteration_across [OF assms, of t]
        by (intro exI [of _ "issued_steps mem t"]) simp
    qed
  qed
qed

theorem loop_after_stop_witness:
  "(\<forall>j. stop (stop_after_check (Suc j)))
   \<and> (\<exists>tr. pwm_loop stop_after_check 0 [] = Some tr \<and> length (writes_from 1 tr) \<le> 1)"
proof -
  have a: "\<forall>i\<ge>1. stop (stop_after_check i)" by simp
  from loop_after_stop [OF a, of 0 "[]"] show ?thesis by simp
qed

text \<open>
  Claim C7 as stated fails. The loop evaluates its \<open>while\<close> condition at instant 0 and
  finds the flag unset; \<open>pwm_stop\<close> then runs from its first to its last statement, sets
  the flag, closes descriptor 3 and stores \<open>-1\<close> in \<open>f_value\<close>; at instant 2 the loop, with
  \<open>on_usec = 10000\<close>, calls \<open>pwm_set_pin\<close>, which writes to the released handle.
\<close>

theorem write_after_release:
  "stop (stop_after_check 0) = False
   \<and> calls stopped = calls half_on @ [Fopen ''/sys/class/gpio/unexport'',
        Fprintf ''/sys/class/gpio/unexport'' ''17'', Fclose ''/sys/class/gpio/unexport'', Close 3]
   \<and> stop (stop_after_check 1) = True
   \<and> f_value (stop_after_check 1) = - 1
   \<and> pwm_loop stop_after_check 0 [] = Some [(2, Write (- 1) ''1''), (3, Usleep 10000)]"
proof -
  have "pwm_loop stop_after_check 0 [] = Some [(2, Write (- 1) ''1''), (3, Usleep 10000)]"
    using loop_unfold [of stop_after_check 0 "[]"] loop_stopped [of stop_after_check 8]
    by (simp add: issued_steps_def iteration_steps_def useconds_t_def numeral_2_eq_2)
  then show ?thesis by simp
qed

section \<open>Properties of \<open>main\<close>\<close>

text \<open>
  Claim C8 does not hold of the code. When the first value entered is \<open>-1.0\<close> the loop of
  \<open>main\<close> ends and \<open>pwm_stop\<close> runs, but \<open>pwm_destroy\<close> is never called: the log of the
  run ends with the calls of \<open>pwm_stop\<close>, holds no \<open>free\<close>, and the instance is still on
  the heap.
\<close>

theorem main_never_destroys:
  "map_option (map_sum id (\<lambda>w. (heap w 1, calls w))) (main (\<lambda>i. Some d_minus_one) boot)
     = Some (Inr (Some \<lparr>pin = 17, pthread = 8, stop = True, f_value = - 1,
                         cycle_usec = 20000, on_usec = 0, off_usec = 20000\<rparr>,
        [Malloc 1,
         Fopen ''/sys/class/gpio/export'', Fprintf ''/sys/class/gpio/export'' ''17'',
         Fclose ''/sys/class/gpio/export'',
         Fopen ''/sys/class/gpio/gpio17/direction'',
         Fprintf ''/sys/class/gpio/gpio17/direction'' ''out'',
         Fclose ''/sys/class/gpio/gpio17/direction'',
         Open ''/sys/class/gpio/gpio17/value'', Pthread_create 1, Pthread_detach 8,
         Printf ''Set on fraction (0.0-1.0) or a negative number to stop: '', Fflush, Fscanf,
         Fopen ''/sys/class/gpio/unexport'', Fprintf ''/sys/class/gpio/unexport'' ''17'',
         Fclose ''/sys/class/gpio/unexport'', Close 3]))"
proof -
  let ?w = "started\<lparr>calls := calls started @
          [Printf ''Set on fraction (0.0-1.0) or a negative number to stop: '', Fflush, Fscanf]\<rparr>"
  have "main (\<lambda>i. Some d_minus_one) boot
          = (case pwm_stop 1 ?w of Inl f \<Rightarrow> Some (Inl f) | Inr w5 \<Rightarrow> Some (Inr w5))"
    unfolding main_def create_boot
    by (simp only: start_created set_duty_zero_started main_loop_minus_one
        Let_def prod.case sum.case option.case if_True)
  then show ?thesis
    by (simp add: pwm_stop_def pwm_unsetup_pin_def NULL_def decimal_17 snprintf_def
      pwm_write_to_file_def Let_def)
qed


end
